theory Spec2Isabelle
  imports Complex_Main "HOL-Library.Word"
begin

section \<open>Common types\<close>

text \<open>
  The C core is modelled for an LP64 target: \<open>size_t\<close> is a 64-bit unsigned word whose
  arithmetic wraps. A pointer to a buffer of doubles that may be \<open>NULL\<close> is an \<open>option\<close>.

  Undefined behaviour of the C program is an outcome of its own, a \<open>fault\<close>:
  \<open>OutOfBounds\<close> is a read or write through a null pointer, through a pointer to no live
  buffer or past the end of a buffer, \<open>InvalidFree\<close> the release of a pointer that
  designates no live buffer. A function that can run into one returns \<open>fault + result\<close>.
\<close>

type_synonym size_t = "64 word"

datatype fault = OutOfBounds | InvalidFree

subsection \<open>Doubles\<close>

text \<open>
  A \<open>double\<close> is an IEEE-754 binary64 value: a finite number, one of the two infinities,
  or a NaN. The model keeps the range of the format and its special values and leaves the
  rounding inside the range out: the result of an operation on finite operands is the
  exact result, brought into the range by \<open>fl\<close>. A result of magnitude
  \<open>2^1024 - 2^970\<close> or more (the least magnitude that round-to-nearest takes past
  \<open>DBL_MAX\<close>) overflows to an infinity, and one of magnitude \<open>2^-1075\<close> or less (half
  the smallest subnormal) underflows to zero. The sign of a zero is not kept: a divisor
  of the core that can be zero is a sum of exponentials or a converted \<open>size_t\<close>, and
  such a zero is \<open>+0.0\<close>. \<open>Fin r\<close> is the finite value \<open>r\<close>; the finite doubles are
  among these values, and what is proved for every \<open>Fin r\<close> holds for them.
\<close>

datatype double = Fin real | PInf | NInf | NaN

definition DBL_MAX :: real where
  "DBL_MAX = (2 - 1 / 2 ^ 52) * 2 ^ 1023"

definition DBL_OVERFLOW :: real where
  "DBL_OVERFLOW = 2 ^ 1024 - 2 ^ 970"

definition DBL_UNDERFLOW :: real where
  "DBL_UNDERFLOW = 1 / 2 ^ 1075"

definition fl :: "real \<Rightarrow> double" where
  "fl r =
     (if DBL_OVERFLOW \<le> r then PInf
      else if r \<le> - DBL_OVERFLOW then NInf
      else if \<bar>r\<bar> \<le> DBL_UNDERFLOW then Fin 0
      else Fin r)"

text \<open>\<open>isfinite\<close>, the sign bit of a non-NaN value, and the test for a zero.\<close>

fun is_finite :: "double \<Rightarrow> bool" where
  "is_finite (Fin x) = True"
| "is_finite d = False"

fun is_negative :: "double \<Rightarrow> bool" where
  "is_negative (Fin x) = (x < 0)"
| "is_negative NInf = True"
| "is_negative d = False"

fun is_zero :: "double \<Rightarrow> bool" where
  "is_zero (Fin x) = (x = 0)"
| "is_zero d = False"

text \<open>
  The arithmetic of IEEE-754. A NaN operand gives NaN; \<open>inf - inf\<close>, \<open>0 * inf\<close>,
  \<open>inf / inf\<close> and \<open>0 / 0\<close> are NaN; a nonzero finite number divided by zero is an
  infinity.
\<close>

fun dneg :: "double \<Rightarrow> double" where
  "dneg (Fin x) = Fin (- x)"
| "dneg PInf = NInf"
| "dneg NInf = PInf"
| "dneg NaN = NaN"

fun dadd :: "double \<Rightarrow> double \<Rightarrow> double" where
  "dadd NaN b = NaN"
| "dadd a NaN = NaN"
| "dadd (Fin x) (Fin y) = fl (x + y)"
| "dadd PInf NInf = NaN"
| "dadd NInf PInf = NaN"
| "dadd PInf b = PInf"
| "dadd NInf b = NInf"
| "dadd (Fin x) b = b"

fun dmul :: "double \<Rightarrow> double \<Rightarrow> double" where
  "dmul NaN b = NaN"
| "dmul a NaN = NaN"
| "dmul (Fin x) (Fin y) = fl (x * y)"
| "dmul a b =
     (if is_zero a \<or> is_zero b then NaN
      else if is_negative a = is_negative b then PInf else NInf)"

fun ddiv :: "double \<Rightarrow> double \<Rightarrow> double" where
  "ddiv NaN b = NaN"
| "ddiv a NaN = NaN"
| "ddiv (Fin x) (Fin y) =
     (if y = 0 then (if x = 0 then NaN else if 0 < x then PInf else NInf)
      else fl (x / y))"
| "ddiv (Fin x) b = Fin 0"
| "ddiv a (Fin y) = (if is_negative a = (y < 0) then PInf else NInf)"
| "ddiv a b = NaN"

text \<open>The comparison \<open>a < b\<close>: false when an operand is NaN.\<close>

fun dless :: "double \<Rightarrow> double \<Rightarrow> bool" where
  "dless NaN b = False"
| "dless a NaN = False"
| "dless (Fin x) (Fin y) = (x < y)"
| "dless a NInf = False"
| "dless NInf b = True"
| "dless PInf b = False"
| "dless (Fin x) PInf = True"

instantiation double :: "{zero, one, plus, uminus, minus, times, inverse, ord}"
begin

definition zero_double :: double where "zero_double = Fin 0"
definition one_double :: double where "one_double = Fin 1"
definition plus_double :: "double \<Rightarrow> double \<Rightarrow> double" where "plus_double a b = dadd a b"
definition uminus_double :: "double \<Rightarrow> double" where "uminus_double a = dneg a"
definition minus_double :: "double \<Rightarrow> double \<Rightarrow> double" where "minus_double a b = dadd a (dneg b)"
definition times_double :: "double \<Rightarrow> double \<Rightarrow> double" where "times_double a b = dmul a b"
definition divide_double :: "double \<Rightarrow> double \<Rightarrow> double" where "divide_double a b = ddiv a b"
definition inverse_double :: "double \<Rightarrow> double" where "inverse_double a = ddiv (Fin 1) a"
definition less_double :: "double \<Rightarrow> double \<Rightarrow> bool" where "less_double a b = dless a b"
definition less_eq_double :: "double \<Rightarrow> double \<Rightarrow> bool" where
  "less_eq_double a b = (dless a b \<or> (a = b \<and> a \<noteq> NaN))"

instance ..

end

text \<open>
  The functions of \<open>math.h\<close> that the core calls, with their values at the infinities and
  at NaN, and the conversion of a \<open>size_t\<close> to a double.
\<close>

fun dexp :: "double \<Rightarrow> double" where
  "dexp (Fin x) = fl (exp x)"
| "dexp PInf = PInf"
| "dexp NInf = Fin 0"
| "dexp NaN = NaN"

fun dtanh :: "double \<Rightarrow> double" where
  "dtanh (Fin x) = fl (tanh x)"
| "dtanh PInf = Fin 1"
| "dtanh NInf = Fin (- 1)"
| "dtanh NaN = NaN"

fun dsqrt :: "double \<Rightarrow> double" where
  "dsqrt (Fin x) = (if x < 0 then NaN else fl (sqrt x))"
| "dsqrt PInf = PInf"
| "dsqrt NInf = NaN"
| "dsqrt NaN = NaN"

text \<open>\<open>pow(x, 3)\<close>.\<close>

fun dpow3 :: "double \<Rightarrow> double" where
  "dpow3 (Fin x) = fl (x ^ 3)"
| "dpow3 d = d"

definition of_size :: "size_t \<Rightarrow> double" where
  "of_size n = Fin (real (unat n))"

datatype agi_error_t =
    AGI_SUCCESS
  | AGI_ERROR_NULL_POINTER
  | AGI_ERROR_INVALID_ARGUMENT
  | AGI_ERROR_MEMORY_ALLOCATION
  | AGI_ERROR_INVALID_OPERATION
  | AGI_ERROR_NOT_IMPLEMENTED
  | AGI_ERROR_SIMD_NOT_SUPPORTED
  | AGI_ERROR_OPENMP_NOT_AVAILABLE

section \<open>Numeric kernels (matrix\_operations.c, simd\_operations.c)\<close>

text \<open>
  The kernels take their buffers by value: \<open>None\<close> is the null pointer, \<open>Some xs\<close> a
  buffer holding the doubles \<open>xs\<close>. They return the status code together with the final
  contents of the \<open>result\<close> buffer. The three buffers are distinct objects here.

  The three elementwise loops of matrix\_operations.c differ in the operator only:
  \<^verbatim>\<open>for (size_t i = 0; i < size; i++) result[i] = a[i] op b[i];\<close>
\<close>

function elementwise_loop ::
  "(double \<Rightarrow> double \<Rightarrow> double) \<Rightarrow> double list \<Rightarrow> double list \<Rightarrow> double list \<Rightarrow> nat \<Rightarrow> nat
    \<Rightarrow> fault + double list" where
  "elementwise_loop f a b r i n =
     (if i < n then
        (if i < length a \<and> i < length b \<and> i < length r
         then elementwise_loop f a b (r[i := f (a ! i) (b ! i)]) (Suc i) n
         else Inl OutOfBounds)
      else Inr r)"
  by pat_completeness auto
termination
  by (relation "measure (\<lambda>(f, a, b, r, i, n). n - i)") auto

declare elementwise_loop.simps [simp del]

definition agi_matrix_add ::
  "double list option \<Rightarrow> double list option \<Rightarrow> double list option \<Rightarrow> size_t
    \<Rightarrow> fault + (agi_error_t \<times> double list option)" where
  "agi_matrix_add a b result sz =
     (case (a, b, result) of
        (Some av, Some bv, Some rv) \<Rightarrow>
          (case elementwise_loop (\<lambda>x y. x + y) av bv rv 0 (unat sz) of
             Inl e \<Rightarrow> Inl e
           | Inr rv' \<Rightarrow> Inr (AGI_SUCCESS, Some rv'))
      | _ \<Rightarrow> Inr (AGI_ERROR_NULL_POINTER, result))"

definition agi_matrix_subtract ::
  "double list option \<Rightarrow> double list option \<Rightarrow> double list option \<Rightarrow> size_t
    \<Rightarrow> fault + (agi_error_t \<times> double list option)" where
  "agi_matrix_subtract a b result sz =
     (case (a, b, result) of
        (Some av, Some bv, Some rv) \<Rightarrow>
          (case elementwise_loop (\<lambda>x y. x - y) av bv rv 0 (unat sz) of
             Inl e \<Rightarrow> Inl e
           | Inr rv' \<Rightarrow> Inr (AGI_SUCCESS, Some rv'))
      | _ \<Rightarrow> Inr (AGI_ERROR_NULL_POINTER, result))"

definition agi_matrix_element_multiply ::
  "double list option \<Rightarrow> double list option \<Rightarrow> double list option \<Rightarrow> size_t
    \<Rightarrow> fault + (agi_error_t \<times> double list option)" where
  "agi_matrix_element_multiply a b result sz =
     (case (a, b, result) of
        (Some av, Some bv, Some rv) \<Rightarrow>
          (case elementwise_loop (\<lambda>x y. x * y) av bv rv 0 (unat sz) of
             Inl e \<Rightarrow> Inl e
           | Inr rv' \<Rightarrow> Inr (AGI_SUCCESS, Some rv'))
      | _ \<Rightarrow> Inr (AGI_ERROR_NULL_POINTER, result))"

text \<open>
  simd\_operations.c: the body of \<open>agi_matrix_multiply_simd\<close> is the null check followed
  by \<^verbatim>\<open>return AGI_SUCCESS;\<close>. Nothing is read from \<open>a\<close> and \<open>b\<close> and nothing is
  written to \<open>result\<close>.
\<close>

definition agi_matrix_multiply_simd ::
  "double list option \<Rightarrow> double list option \<Rightarrow> double list option \<Rightarrow> size_t \<Rightarrow> size_t \<Rightarrow> size_t
    \<Rightarrow> fault + (agi_error_t \<times> double list option)" where
  "agi_matrix_multiply_simd a b result m n k =
     (case (a, b, result) of
        (Some av, Some bv, Some rv) \<Rightarrow> Inr (AGI_SUCCESS, result)
      | _ \<Rightarrow> Inr (AGI_ERROR_NULL_POINTER, result))"

text \<open>
  The product the specification asks for, written from its words: row-major \<open>A\<close> of shape
  \<open>m \<times> k\<close> and \<open>B\<close> of shape \<open>k \<times> n\<close>, \<open>result[i,j] = \<Sum>t<k. A[i,t] * B[t,j]\<close>,
  the sum accumulated from \<open>0.0\<close> in the order of \<open>t\<close>.
\<close>

definition matrix_product_spec :: "double list \<Rightarrow> double list \<Rightarrow> nat \<Rightarrow> nat \<Rightarrow> nat \<Rightarrow> double list" where
  "matrix_product_spec a b m n k =
     concat (map (\<lambda>i. map (\<lambda>j.
       foldl (\<lambda>acc t. acc + a ! (i * k + t) * b ! (t * n + j)) 0 [0..<k]) [0..<n]) [0..<m])"

section \<open>Activation library (activation\_functions.c)\<close>

text \<open>
  \<open>agi_activation_type_t\<close> is a C enum, so a value of it is an \<open>int\<close>; the seven
  enumerators are numbered from 0 in the order of their declaration. Any other \<open>int\<close> is
  an unrecognised tag and takes the \<open>default\<close> branch of a \<open>switch\<close>.
\<close>

type_synonym agi_activation_type_t = int

definition AGI_ACTIVATION_SIGMOID :: agi_activation_type_t where "AGI_ACTIVATION_SIGMOID = 0"
definition AGI_ACTIVATION_TANH :: agi_activation_type_t where "AGI_ACTIVATION_TANH = 1"
definition AGI_ACTIVATION_RELU :: agi_activation_type_t where "AGI_ACTIVATION_RELU = 2"
definition AGI_ACTIVATION_LEAKY_RELU :: agi_activation_type_t where "AGI_ACTIVATION_LEAKY_RELU = 3"
definition AGI_ACTIVATION_SWISH :: agi_activation_type_t where "AGI_ACTIVATION_SWISH = 4"
definition AGI_ACTIVATION_GELU :: agi_activation_type_t where "AGI_ACTIVATION_GELU = 5"
definition AGI_ACTIVATION_SOFTMAX :: agi_activation_type_t where "AGI_ACTIVATION_SOFTMAX = 6"

text \<open>The \<open>switch\<close> in the loop of \<open>agi_apply_activation\<close>: the value stored in \<open>output[i]\<close>.\<close>

definition activation_switch :: "agi_activation_type_t \<Rightarrow> double \<Rightarrow> double" where
  "activation_switch t x =
     (if t = AGI_ACTIVATION_SIGMOID then 1 / (1 + dexp (- x))
      else if t = AGI_ACTIVATION_TANH then dtanh x
      else if t = AGI_ACTIVATION_RELU then (if x > 0 then x else 0)
      else if t = AGI_ACTIVATION_LEAKY_RELU then (if x > 0 then x else Fin 0.01 * x)
      else if t = AGI_ACTIVATION_SWISH then x / (1 + dexp (- x))
      else if t = AGI_ACTIVATION_GELU then
        Fin 0.5 * x * (1 + dtanh (dsqrt (Fin 2 / Fin pi) * (x + Fin 0.044715 * dpow3 x)))
      else if t = AGI_ACTIVATION_SOFTMAX then dexp x
      else x)"

text \<open>
  The \<open>switch\<close> in the loop of \<open>agi_apply_activation_derivative\<close>. It has no case for
  \<open>AGI_ACTIVATION_SOFTMAX\<close>; its \<open>default\<close> branch stores \<open>1.0\<close>.
\<close>

definition derivative_switch :: "agi_activation_type_t \<Rightarrow> double \<Rightarrow> double" where
  "derivative_switch t x =
     (if t = AGI_ACTIVATION_SIGMOID then
        (let sigmoid = 1 / (1 + dexp (- x)) in sigmoid * (1 - sigmoid))
      else if t = AGI_ACTIVATION_TANH then 1 - dtanh x * dtanh x
      else if t = AGI_ACTIVATION_RELU then (if x > 0 then 1 else 0)
      else if t = AGI_ACTIVATION_LEAKY_RELU then (if x > 0 then 1 else Fin 0.01)
      else if t = AGI_ACTIVATION_SWISH then
        (let sigmoid = 1 / (1 + dexp (- x)) in sigmoid + x * sigmoid * (1 - sigmoid))
      else if t = AGI_ACTIVATION_GELU then
        Fin 0.5 * (1 + dtanh (dsqrt (Fin 2 / Fin pi) * (x + Fin 0.044715 * dpow3 x)))
      else 1)"

text \<open>\<^verbatim>\<open>for (size_t i = 0; i < size; i++) output[i] = g(input[i]);\<close>\<close>

function pointwise_loop ::
  "(double \<Rightarrow> double) \<Rightarrow> double list \<Rightarrow> double list \<Rightarrow> nat \<Rightarrow> nat \<Rightarrow> fault + double list" where
  "pointwise_loop g inp out i n =
     (if i < n then
        (if i < length inp \<and> i < length out
         then pointwise_loop g inp (out[i := g (inp ! i)]) (Suc i) n
         else Inl OutOfBounds)
      else Inr out)"
  by pat_completeness auto
termination
  by (relation "measure (\<lambda>(g, inp, out, i, n). n - i)") auto

declare pointwise_loop.simps [simp del]

text \<open>\<^verbatim>\<open>for (size_t i = 0; i < size; i++) sum += output[i];\<close>\<close>

function softmax_sum_loop :: "double list \<Rightarrow> nat \<Rightarrow> nat \<Rightarrow> double \<Rightarrow> fault + double" where
  "softmax_sum_loop out i n acc =
     (if i < n then
        (if i < length out then softmax_sum_loop out (Suc i) n (acc + out ! i)
         else Inl OutOfBounds)
      else Inr acc)"
  by pat_completeness auto
termination
  by (relation "measure (\<lambda>(out, i, n, acc). n - i)") auto

declare softmax_sum_loop.simps [simp del]

text \<open>
  \<^verbatim>\<open>for (size_t i = 0; i < size; i++) output[i] /= sum;\<close>
  Nothing guards the division: an infinite \<open>sum\<close> under an infinite exponential, or a
  zero \<open>sum\<close> under a zero exponential, leaves NaN in the output.
\<close>

function softmax_div_loop :: "double list \<Rightarrow> nat \<Rightarrow> nat \<Rightarrow> double \<Rightarrow> fault + double list" where
  "softmax_div_loop out i n acc =
     (if i < n then
        (if i < length out then softmax_div_loop (out[i := out ! i / acc]) (Suc i) n acc
         else Inl OutOfBounds)
      else Inr out)"
  by pat_completeness auto
termination
  by (relation "measure (\<lambda>(out, i, n, acc). n - i)") auto

declare softmax_div_loop.simps [simp del]

definition agi_apply_activation ::
  "double list option \<Rightarrow> double list option \<Rightarrow> size_t \<Rightarrow> agi_activation_type_t
    \<Rightarrow> fault + (agi_error_t \<times> double list option)" where
  "agi_apply_activation input output sz activation_type =
     (case (input, output) of
        (Some inp, Some out) \<Rightarrow>
          (case pointwise_loop (activation_switch activation_type) inp out 0 (unat sz) of
             Inl e \<Rightarrow> Inl e
           | Inr out1 \<Rightarrow>
               if activation_type = AGI_ACTIVATION_SOFTMAX then
                 (case softmax_sum_loop out1 0 (unat sz) 0 of
                    Inl e \<Rightarrow> Inl e
                  | Inr acc \<Rightarrow>
                      (case softmax_div_loop out1 0 (unat sz) acc of
                         Inl e \<Rightarrow> Inl e
                       | Inr out2 \<Rightarrow> Inr (AGI_SUCCESS, Some out2)))
               else Inr (AGI_SUCCESS, Some out1))
      | _ \<Rightarrow> Inr (AGI_ERROR_NULL_POINTER, output))"

definition agi_apply_activation_derivative ::
  "double list option \<Rightarrow> double list option \<Rightarrow> size_t \<Rightarrow> agi_activation_type_t
    \<Rightarrow> fault + (agi_error_t \<times> double list option)" where
  "agi_apply_activation_derivative input output sz activation_type =
     (case (input, output) of
        (Some inp, Some out) \<Rightarrow>
          (case pointwise_loop (derivative_switch activation_type) inp out 0 (unat sz) of
             Inl e \<Rightarrow> Inl e
           | Inr out1 \<Rightarrow> Inr (AGI_SUCCESS, Some out1))
      | _ \<Rightarrow> Inr (AGI_ERROR_NULL_POINTER, output))"

section \<open>Program state: heap, C library, allocator statistics\<close>

text \<open>
  The engine works on buffers that it reaches through pointers, and some of them alias
  (\<open>agi_train_batch\<close> passes the network's own output buffer to the forward pass). Its
  buffers live in a heap of blocks: an address is a natural number, a pointer is an
  address or \<open>None\<close> for \<open>NULL\<close>, and the heap maps the address of every live block to
  the doubles it holds. A pointer always designates the start of a block.
\<close>

type_synonym ptr = "nat option"
type_synonym heap_t = "nat \<Rightarrow> double list option"

record agi_memory_stats_t =
  total_memory :: size_t
  used_memory :: size_t
  peak_memory :: size_t
  allocation_count :: size_t
  deallocation_count :: size_t
  fragmentation_ratio :: double

text \<open>
  The state of the process: the heap; what the C library will do next (\<open>alloc_plan\<close>
  lists the outcomes of the coming allocation requests, \<open>True\<close> for a block and \<open>False\<close>
  for \<open>NULL\<close>, and every request after the end of the list gets a block; \<open>rand_plan\<close>
  lists the coming values of \<open>rand()\<close>, 0 after the end of the list); and the file-static
  \<open>g_memory_stats\<close> of memory\_management.c, which starts as all zeros.
\<close>

record c_state =
  heap :: heap_t
  next_addr :: nat
  alloc_plan :: "bool list"
  rand_plan :: "nat list"
  g_memory_stats :: agi_memory_stats_t

definition sizeof_double :: size_t where "sizeof_double = 8"

text \<open>\<open>sizeof(agi_neural_layer_t)\<close>: six pointers, two \<open>size_t\<close>, one \<open>bool\<close>, padded to 72.\<close>

definition sizeof_agi_neural_layer_t :: size_t where "sizeof_agi_neural_layer_t = 72"

text \<open>\<open>RAND_MAX\<close> of the C library, here the value of glibc.\<close>

definition RAND_MAX :: nat where "RAND_MAX = 2147483647"

definition load :: "heap_t \<Rightarrow> ptr \<Rightarrow> nat \<Rightarrow> fault + double" where
  "load h p i =
     (case p of
        None \<Rightarrow> Inl OutOfBounds
      | Some a \<Rightarrow>
          (case h a of
             None \<Rightarrow> Inl OutOfBounds
           | Some xs \<Rightarrow> if i < length xs then Inr (xs ! i) else Inl OutOfBounds))"

definition store :: "heap_t \<Rightarrow> ptr \<Rightarrow> nat \<Rightarrow> double \<Rightarrow> fault + heap_t" where
  "store h p i v =
     (case p of
        None \<Rightarrow> Inl OutOfBounds
      | Some a \<Rightarrow>
          (case h a of
             None \<Rightarrow> Inl OutOfBounds
           | Some xs \<Rightarrow> if i < length xs then Inr (h(a \<mapsto> xs[i := v])) else Inl OutOfBounds))"

text \<open>
  \<open>memcpy(dst, src, nbytes)\<close> on buffers of doubles: \<open>nbytes div 8\<close> doubles are copied.
  Source and destination are whole blocks, so they are either distinct or the same block;
  copying a block onto itself leaves it as it is.
\<close>

definition memcpy :: "heap_t \<Rightarrow> ptr \<Rightarrow> ptr \<Rightarrow> size_t \<Rightarrow> fault + heap_t" where
  "memcpy h dst src nbytes =
     (let n = unat nbytes div unat sizeof_double in
      case (dst, src) of
        (Some d, Some sr) \<Rightarrow>
          (case (h d, h sr) of
             (Some dv, Some sv) \<Rightarrow>
               if n \<le> length dv \<and> n \<le> length sv
               then Inr (h(d \<mapsto> take n sv @ drop n dv))
               else Inl OutOfBounds
           | _ \<Rightarrow> Inl OutOfBounds)
      | _ \<Rightarrow> Inl OutOfBounds)"

text \<open>A counting loop \<^verbatim>\<open>for (size_t i = i0; i < n; i++) body\<close> over a state.\<close>

function for_loop :: "nat \<Rightarrow> nat \<Rightarrow> (nat \<Rightarrow> 's \<Rightarrow> fault + 's) \<Rightarrow> 's \<Rightarrow> fault + 's" where
  "for_loop i n body s =
     (if i < n then
        (case body i s of Inl e \<Rightarrow> Inl e | Inr s' \<Rightarrow> for_loop (Suc i) n body s')
      else Inr s)"
  by pat_completeness auto
termination
  by (relation "measure (\<lambda>(i, n, body, s). n - i)") auto

declare for_loop.simps [simp del]

subsection \<open>The C library\<close>

text \<open>The outcome the plan holds for the next allocation request, and the plan after it.\<close>

definition next_alloc_ok :: "c_state \<Rightarrow> bool" where
  "next_alloc_ok s = (case alloc_plan s of [] \<Rightarrow> True | ok # _ \<Rightarrow> ok)"

definition plan_step :: "c_state \<Rightarrow> c_state" where
  "plan_step s = s\<lparr>alloc_plan := tl (alloc_plan s)\<rparr>"

text \<open>A request for a block of doubles: a fresh block with the given contents, or \<open>NULL\<close>.\<close>

definition new_block :: "bool \<Rightarrow> double list \<Rightarrow> c_state \<Rightarrow> ptr \<times> c_state" where
  "new_block ok xs s =
     (if ok then
        (Some (next_addr s),
         (plan_step s)\<lparr>heap := (heap s)(next_addr s \<mapsto> xs), next_addr := Suc (next_addr s)\<rparr>)
      else (None, plan_step s))"

text \<open>
  \<open>calloc(count, sizeof(double))\<close>: \<open>NULL\<close> when the byte size overflows \<open>size_t\<close> or
  the library has no memory, else a block of \<open>count\<close> zeros. A request for no elements
  is served like any other: the plan decides between \<open>NULL\<close> and a block of no doubles
  (the pointer that glibc returns).
\<close>

definition libc_calloc :: "size_t \<Rightarrow> c_state \<Rightarrow> ptr \<times> c_state" where
  "libc_calloc count s =
     new_block (next_alloc_ok s \<and> unat count * unat sizeof_double < 2 ^ 64)
       (replicate (unat count) 0) s"

text \<open>
  \<open>malloc\<close> of the network record and of the layer array. Both objects are held by value
  in the model, so the request only consumes an outcome of the plan.
\<close>

definition libc_malloc_object :: "c_state \<Rightarrow> bool \<times> c_state" where
  "libc_malloc_object s = (next_alloc_ok s, plan_step s)"

text \<open>
  \<open>aligned_alloc(alignment, size)\<close>: a block of \<open>size\<close> bytes, that is of
  \<open>size div 8\<close> doubles, or \<open>NULL\<close>, as the plan says (a request that the library
  refuses for its alignment is a \<open>False\<close> of the plan). The contents of the block are
  indeterminate in C; no function of the core reads them, and the model fills the block
  with zeros.
\<close>

definition libc_aligned_alloc :: "size_t \<Rightarrow> size_t \<Rightarrow> c_state \<Rightarrow> ptr \<times> c_state" where
  "libc_aligned_alloc alignment sz s =
     new_block (next_alloc_ok s) (replicate (unat sz div unat sizeof_double) 0) s"

text \<open>\<open>free(p)\<close>: nothing for \<open>NULL\<close>; undefined when \<open>p\<close> is not a live block.\<close>

definition libc_free :: "ptr \<Rightarrow> c_state \<Rightarrow> fault + c_state" where
  "libc_free p s =
     (case p of
        None \<Rightarrow> Inr s
      | Some a \<Rightarrow>
          (case heap s a of
             None \<Rightarrow> Inl InvalidFree
           | Some xs \<Rightarrow> Inr (s\<lparr>heap := (heap s)(a := None)\<rparr>)))"

text \<open>\<open>rand()\<close>: the next value of the plan, within \<open>0 .. RAND_MAX\<close>.\<close>

definition libc_rand :: "c_state \<Rightarrow> nat \<times> c_state" where
  "libc_rand s =
     (case rand_plan s of
        [] \<Rightarrow> (0, s)
      | r # rs \<Rightarrow> (min r RAND_MAX, s\<lparr>rand_plan := rs\<rparr>))"

section \<open>Allocator tracker (memory\_management.c)\<close>

definition agi_aligned_alloc :: "size_t \<Rightarrow> size_t \<Rightarrow> c_state \<Rightarrow> ptr \<times> c_state" where
  "agi_aligned_alloc sz alignment s =
     (case libc_aligned_alloc alignment sz s of
        (None, s1) \<Rightarrow> (None, s1)
      | (Some a, s1) \<Rightarrow>
          (let st = g_memory_stats s1;
               st1 = st\<lparr>total_memory := total_memory st + sz\<rparr>;
               st2 = st1\<lparr>used_memory := used_memory st1 + sz\<rparr>;
               st3 = st2\<lparr>allocation_count := allocation_count st2 + 1\<rparr>;
               st4 = (if used_memory st3 > peak_memory st3
                      then st3\<lparr>peak_memory := used_memory st3\<rparr> else st3)
           in (Some a, s1\<lparr>g_memory_stats := st4\<rparr>)))"

definition agi_aligned_free :: "ptr \<Rightarrow> c_state \<Rightarrow> fault + (agi_error_t \<times> c_state)" where
  "agi_aligned_free p s =
     (case p of
        None \<Rightarrow> Inr (AGI_ERROR_NULL_POINTER, s)
      | Some a \<Rightarrow>
          (let st = g_memory_stats s;
               s1 = s\<lparr>g_memory_stats := st\<lparr>deallocation_count := deallocation_count st + 1\<rparr>\<rparr>
           in case libc_free p s1 of
                Inl e \<Rightarrow> Inl e
              | Inr s2 \<Rightarrow> Inr (AGI_SUCCESS, s2)))"

text \<open>
  A sequence of calls of the two functions, as a client program makes them. The pointer
  that an allocation returns is dropped here; a \<open>Free\<close> names its pointer itself.
\<close>

datatype tracker_call = Alloc size_t size_t | Free ptr

fun run_calls :: "tracker_call list \<Rightarrow> c_state \<Rightarrow> fault + c_state" where
  "run_calls [] s = Inr s"
| "run_calls (Alloc sz alignment # cs) s = run_calls cs (snd (agi_aligned_alloc sz alignment s))"
| "run_calls (Free p # cs) s =
     (case agi_aligned_free p s of Inl e \<Rightarrow> Inl e | Inr (rc, s') \<Rightarrow> run_calls cs s')"

text \<open>The state of a process at its start: an empty heap and zeroed statistics.\<close>

definition zero_stats :: agi_memory_stats_t where
  "zero_stats = \<lparr>total_memory = 0, used_memory = 0, peak_memory = 0, allocation_count = 0,
     deallocation_count = 0, fragmentation_ratio = 0\<rparr>"

definition initial_state :: "bool list \<Rightarrow> nat list \<Rightarrow> c_state" where
  "initial_state ap rp =
     \<lparr>heap = (\<lambda>a. None), next_addr = 1, alloc_plan = ap, rand_plan = rp,
      g_memory_stats = zero_stats\<rparr>"

text \<open>
  The calls of a client that allocates one block and frees it again, \<open>n\<close> times over;
  \<open>a\<close> is the address that the first allocation returns.
  \<^verbatim>\<open>for (k = 0; k < n; k++) { void *p = agi_aligned_alloc(sz, alignment); agi_aligned_free(p); }\<close>
\<close>

fun cycle_calls :: "nat \<Rightarrow> size_t \<Rightarrow> size_t \<Rightarrow> nat \<Rightarrow> tracker_call list" where
  "cycle_calls 0 sz alignment a = []"
| "cycle_calls (Suc n) sz alignment a =
     Alloc sz alignment # Free (Some a) # cycle_calls n sz alignment (Suc a)"

text \<open>\<open>used_memory\<close> after a sequence of calls made from the start of the process.\<close>

definition used_after :: "tracker_call list \<Rightarrow> fault + size_t" where
  "used_after cs =
     (case run_calls cs (initial_state [] []) of
        Inl e \<Rightarrow> Inl e
      | Inr s \<Rightarrow> Inr (used_memory (g_memory_stats s)))"

section \<open>Neural network engine (neural\_operations.c)\<close>

text \<open>
  \<open>hidden_layer_sizes\<close> is a pointer in C. The record holds the array it points to (the
  empty list for a pointer to nothing); \<open>hidden_layers_count\<close> is a field of its own, and
  nothing ties it to the length of the array.
\<close>

record agi_neural_config_t =
  input_size :: size_t
  hidden_layers_count :: size_t
  hidden_layer_sizes :: "size_t list"
  output_size :: size_t
  learning_rate :: double
  momentum :: double
  use_batch_normalization :: bool
  use_dropout :: bool
  dropout_rate :: double

text \<open>
  A layer. The fields \<open>input_size\<close> and \<open>output_size\<close> of the C struct are called
  \<open>layer_input_size\<close> and \<open>layer_output_size\<close> here, to keep them apart from the
  fields of the configuration. The four batch-norm pointers of the struct are left out:
  no function of the core reads or writes them.
\<close>

record agi_neural_layer_t =
  weights :: ptr
  biases :: ptr
  layer_input_size :: size_t
  layer_output_size :: size_t
  is_training :: bool

record agi_neural_network_t =
  layers :: "agi_neural_layer_t list"
  layer_count :: size_t
  config :: agi_neural_config_t
  input_buffer :: ptr
  output_buffer :: ptr
  gradient_buffer :: ptr
  max_batch_size :: size_t

subsection \<open>agi\_create\_neural\_network\<close>

text \<open>A read of \<open>config->hidden_layer_sizes[i]\<close>.\<close>

definition read_hidden :: "agi_neural_config_t \<Rightarrow> nat \<Rightarrow> fault + size_t" where
  "read_hidden cfg i =
     (if i < length (hidden_layer_sizes cfg) then Inr (hidden_layer_sizes cfg ! i)
      else Inl OutOfBounds)"

text \<open>
  The choice of \<open>output_size\<close> at the head of the layer loop:
  \<^verbatim>\<open>if (i == 0) hidden_layer_sizes[0];
  else if (i == layer_count - 1) config->output_size;
  else hidden_layer_sizes[i];\<close>
\<close>

definition layer_output_choice :: "agi_neural_config_t \<Rightarrow> size_t \<Rightarrow> nat \<Rightarrow> fault + size_t" where
  "layer_output_choice cfg lc i =
     (if i = 0 then read_hidden cfg 0
      else if i = unat (lc - 1) then Inr (output_size cfg)
      else read_hidden cfg i)"

text \<open>
  \<open>sqrt(2.0 / (current_size + output_size))\<close>: the sum is a \<open>size_t\<close> sum, converted
  to a double for the division. When it is zero the scale is \<open>+inf\<close>.
\<close>

definition xavier_scale :: "size_t \<Rightarrow> size_t \<Rightarrow> double" where
  "xavier_scale current_size out_size = dsqrt (Fin 2 / of_size (current_size + out_size))"

text \<open>
  The body of the initialisation loop:
  \<^verbatim>\<open>weights[j] = ((double)rand() / RAND_MAX - 0.5) * 2.0 * scale;\<close>
\<close>

definition init_weight :: "ptr \<Rightarrow> double \<Rightarrow> nat \<Rightarrow> c_state \<Rightarrow> fault + c_state" where
  "init_weight w scale j s =
     (case libc_rand s of
        (r, s1) \<Rightarrow>
          (case store (heap s1) w j
                  ((Fin (real r) / Fin (real RAND_MAX) - Fin 0.5) * Fin 2 * scale) of
             Inl e \<Rightarrow> Inl e
           | Inr h \<Rightarrow> Inr (s1\<lparr>heap := h\<rparr>)))"

text \<open>The body of both loops that release layers: \<^verbatim>\<open>free(weights); free(biases);\<close>\<close>

definition free_layer :: "agi_neural_layer_t list \<Rightarrow> nat \<Rightarrow> c_state \<Rightarrow> fault + c_state" where
  "free_layer ls j s =
     (if j < length ls then
        (case libc_free (weights (ls ! j)) s of
           Inl e \<Rightarrow> Inl e
         | Inr s1 \<Rightarrow> libc_free (biases (ls ! j)) s1)
      else Inl OutOfBounds)"

text \<open>
  The layer loop of the constructor, from layer \<open>i\<close> on. \<open>cap\<close> is the number of layers
  that the malloc'ed array holds, \<open>ls\<close> the layers written so far. The result is the
  finished array, or \<open>None\<close> when an allocation failed and the loop cleaned up.
\<close>

function create_layers ::
  "agi_neural_config_t \<Rightarrow> size_t \<Rightarrow> nat \<Rightarrow> nat \<Rightarrow> size_t \<Rightarrow> agi_neural_layer_t list \<Rightarrow> c_state
    \<Rightarrow> fault + (agi_neural_layer_t list option \<times> c_state)" where
  "create_layers cfg lc cap i current_size ls s =
     (if i < unat lc then
        (case layer_output_choice cfg lc i of
           Inl e \<Rightarrow> Inl e
         | Inr out_size \<Rightarrow>
             if cap \<le> i then Inl OutOfBounds
             else
               (let weights_size = current_size * out_size;
                    biases_size = out_size
                in case libc_calloc weights_size s of
                     (w, s1) \<Rightarrow>
                       (case libc_calloc biases_size s1 of
                          (b, s2) \<Rightarrow>
                            (let layer = \<lparr>weights = w, biases = b,
                                   layer_input_size = current_size,
                                   layer_output_size = out_size, is_training = True\<rparr>
                             in if w = None \<or> b = None then
                                  (case for_loop 0 (Suc i) (free_layer (ls @ [layer])) s2 of
                                     Inl e \<Rightarrow> Inl e
                                   | Inr s3 \<Rightarrow> Inr (None, s3))
                                else
                                  (case for_loop 0 (unat weights_size)
                                          (init_weight w (xavier_scale current_size out_size)) s2 of
                                     Inl e \<Rightarrow> Inl e
                                   | Inr s3 \<Rightarrow>
                                       create_layers cfg lc cap (Suc i) out_size
                                         (ls @ [layer]) s3)))))
      else Inr (Some ls, s))"
  by pat_completeness auto
termination
  by (relation "measure (\<lambda>(cfg, lc, cap, i, current_size, ls, s). unat lc - i)") auto

declare create_layers.simps [simp del]

definition agi_create_neural_network ::
  "agi_neural_config_t option \<Rightarrow> c_state \<Rightarrow> fault + (agi_neural_network_t option \<times> c_state)" where
  "agi_create_neural_network config_ptr s =
     (case config_ptr of
        None \<Rightarrow> Inr (None, s)
      | Some cfg \<Rightarrow>
          (case libc_malloc_object s of
             (False, s1) \<Rightarrow> Inr (None, s1)
           | (True, s1) \<Rightarrow>
               (let lc = hidden_layers_count cfg + 2 in
                case libc_malloc_object s1 of
                  (False, s2) \<Rightarrow> Inr (None, s2)
                | (True, s2) \<Rightarrow>
                    (case create_layers cfg lc
                            (unat (lc * sizeof_agi_neural_layer_t)
                               div unat sizeof_agi_neural_layer_t)
                            0 (input_size cfg) [] s2 of
                       Inl e \<Rightarrow> Inl e
                     | Inr (None, s3) \<Rightarrow> Inr (None, s3)
                     | Inr (Some ls, s3) \<Rightarrow>
                         (case libc_calloc (input_size cfg) s3 of
                            (ib, s4) \<Rightarrow>
                              (case libc_calloc (output_size cfg) s4 of
                                 (ob, s5) \<Rightarrow>
                                   (case libc_calloc (output_size cfg) s5 of
                                      (gb, s6) \<Rightarrow>
                                        Inr (Some \<lparr>layers = ls, layer_count = lc, config = cfg,
                                               input_buffer = ib, output_buffer = ob,
                                               gradient_buffer = gb, max_batch_size = 32\<rparr>,
                                             s6))))))))"

subsection \<open>agi\_destroy\_neural\_network\<close>

text \<open>
  \<open>free(network->layers)\<close> and \<open>free(network)\<close> release the two objects that the model
  holds by value; they leave the heap of double buffers as it is.
\<close>

definition agi_destroy_neural_network ::
  "agi_neural_network_t option \<Rightarrow> c_state \<Rightarrow> fault + (agi_error_t \<times> c_state)" where
  "agi_destroy_neural_network network s =
     (case network of
        None \<Rightarrow> Inr (AGI_ERROR_NULL_POINTER, s)
      | Some net \<Rightarrow>
          (case for_loop 0 (unat (layer_count net)) (free_layer (layers net)) s of
             Inl e \<Rightarrow> Inl e
           | Inr s1 \<Rightarrow>
               (case libc_free (input_buffer net) s1 of
                  Inl e \<Rightarrow> Inl e
                | Inr s2 \<Rightarrow>
                    (case libc_free (output_buffer net) s2 of
                       Inl e \<Rightarrow> Inl e
                     | Inr s3 \<Rightarrow>
                         (case libc_free (gradient_buffer net) s3 of
                            Inl e \<Rightarrow> Inl e
                          | Inr s4 \<Rightarrow> Inr (AGI_SUCCESS, s4))))))"

subsection \<open>agi\_forward\_pass\<close>

text \<open>
  The standard implementation is modelled (the branch taken without
  \<open>AGI_AVX2_SUPPORT\<close>). The loops work on the heap; \<open>cin\<close> and \<open>cout\<close> are
  \<open>current_input\<close> and \<open>current_output\<close>.

  \<^verbatim>\<open>current_output[i] += layer->weights[i * layer->input_size + j] * current_input[j];\<close>
  The index is computed in \<open>size_t\<close>. The product and the sum are double operations:
  on finite operands they can overflow to an infinity, which the accumulator then keeps.
\<close>

definition accumulate_step ::
  "agi_neural_layer_t \<Rightarrow> ptr \<Rightarrow> ptr \<Rightarrow> nat \<Rightarrow> nat \<Rightarrow> heap_t \<Rightarrow> fault + heap_t" where
  "accumulate_step layer cin cout i j h =
     (case load h (weights layer) (unat (of_nat i * layer_input_size layer + of_nat j :: size_t)) of
        Inl e \<Rightarrow> Inl e
      | Inr w \<Rightarrow>
          (case load h cin j of
             Inl e \<Rightarrow> Inl e
           | Inr x \<Rightarrow>
               (case load h cout i of
                  Inl e \<Rightarrow> Inl e
                | Inr y \<Rightarrow> store h cout i (y + w * x))))"

text \<open>
  \<^verbatim>\<open>current_output[i] = 0.0;
  for (size_t j = 0; j < layer->input_size; j++) ...\<close>
\<close>

definition row_step :: "agi_neural_layer_t \<Rightarrow> ptr \<Rightarrow> ptr \<Rightarrow> nat \<Rightarrow> heap_t \<Rightarrow> fault + heap_t" where
  "row_step layer cin cout i h =
     (case store h cout i 0 of
        Inl e \<Rightarrow> Inl e
      | Inr h1 \<Rightarrow> for_loop 0 (unat (layer_input_size layer)) (accumulate_step layer cin cout i) h1)"

text \<open>\<^verbatim>\<open>current_output[i] += layer->biases[i];\<close>\<close>

definition bias_step :: "agi_neural_layer_t \<Rightarrow> ptr \<Rightarrow> nat \<Rightarrow> heap_t \<Rightarrow> fault + heap_t" where
  "bias_step layer cout i h =
     (case load h cout i of
        Inl e \<Rightarrow> Inl e
      | Inr y \<Rightarrow>
          (case load h (biases layer) i of
             Inl e \<Rightarrow> Inl e
           | Inr b \<Rightarrow> store h cout i (y + b)))"

text \<open>\<^verbatim>\<open>current_output[i] = current_output[i] > 0.0 ? current_output[i] : 0.0;\<close>\<close>

definition relu_step :: "ptr \<Rightarrow> nat \<Rightarrow> heap_t \<Rightarrow> fault + heap_t" where
  "relu_step cout i h =
     (case load h cout i of
        Inl e \<Rightarrow> Inl e
      | Inr y \<Rightarrow> store h cout i (if y > 0 then y else 0))"

text \<open>
  The body of the loop over the layers, on the heap and the two current pointers: the
  three loops over the rows of the layer, then the swap of the pointers.
\<close>

definition layer_step ::
  "agi_neural_network_t \<Rightarrow> nat \<Rightarrow> heap_t \<times> ptr \<times> ptr \<Rightarrow> fault + (heap_t \<times> ptr \<times> ptr)" where
  "layer_step net layer_idx st =
     (case st of
        (h, cin, cout) \<Rightarrow>
          if layer_idx < length (layers net) then
            (let layer = layers net ! layer_idx;
                 rows = unat (layer_output_size layer)
             in case for_loop 0 rows (row_step layer cin cout) h of
                  Inl e \<Rightarrow> Inl e
                | Inr h1 \<Rightarrow>
                    (case for_loop 0 rows (bias_step layer cout) h1 of
                       Inl e \<Rightarrow> Inl e
                     | Inr h2 \<Rightarrow>
                         (case for_loop 0 rows (relu_step cout) h2 of
                            Inl e \<Rightarrow> Inl e
                          | Inr h3 \<Rightarrow> Inr (h3, cout, cin))))
          else Inl OutOfBounds)"

definition agi_forward_pass ::
  "agi_neural_network_t option \<Rightarrow> ptr \<Rightarrow> ptr \<Rightarrow> size_t \<Rightarrow> c_state
    \<Rightarrow> fault + (agi_error_t \<times> c_state)" where
  "agi_forward_pass network input output batch_size s =
     (case network of
        None \<Rightarrow> Inr (AGI_ERROR_NULL_POINTER, s)
      | Some net \<Rightarrow>
          if input = None \<or> output = None then Inr (AGI_ERROR_NULL_POINTER, s)
          else
            (case memcpy (heap s) (input_buffer net) input
                    (input_size (config net) * sizeof_double) of
               Inl e \<Rightarrow> Inl e
             | Inr h1 \<Rightarrow>
                 (case for_loop 0 (unat (layer_count net)) (layer_step net)
                         (h1, input_buffer net, output_buffer net) of
                    Inl e \<Rightarrow> Inl e
                  | Inr (h2, cin, cout) \<Rightarrow>
                      (case memcpy h2 output cin (output_size (config net) * sizeof_double) of
                         Inl e \<Rightarrow> Inl e
                       | Inr h3 \<Rightarrow> Inr (AGI_SUCCESS, s\<lparr>heap := h3\<rparr>)))))"

subsection \<open>agi\_backward\_pass\<close>

text \<open>\<^verbatim>\<open>gradients[i] = target[i] - input[i];\<close>\<close>

definition gradient_step :: "ptr \<Rightarrow> ptr \<Rightarrow> ptr \<Rightarrow> nat \<Rightarrow> heap_t \<Rightarrow> fault + heap_t" where
  "gradient_step input target gradients i h =
     (case load h target i of
        Inl e \<Rightarrow> Inl e
      | Inr t \<Rightarrow>
          (case load h input i of
             Inl e \<Rightarrow> Inl e
           | Inr x \<Rightarrow> store h gradients i (t - x)))"

definition agi_backward_pass ::
  "agi_neural_network_t option \<Rightarrow> ptr \<Rightarrow> ptr \<Rightarrow> ptr \<Rightarrow> size_t \<Rightarrow> c_state
    \<Rightarrow> fault + (agi_error_t \<times> c_state)" where
  "agi_backward_pass network input target gradients batch_size s =
     (case network of
        None \<Rightarrow> Inr (AGI_ERROR_NULL_POINTER, s)
      | Some net \<Rightarrow>
          if input = None \<or> target = None \<or> gradients = None
          then Inr (AGI_ERROR_NULL_POINTER, s)
          else
            (case for_loop 0 (unat (output_size (config net)))
                    (gradient_step input target gradients) (heap s) of
               Inl e \<Rightarrow> Inl e
             | Inr h \<Rightarrow> Inr (AGI_SUCCESS, s\<lparr>heap := h\<rparr>)))"

subsection \<open>agi\_train\_batch\<close>

text \<open>
  \<^verbatim>\<open>double diff = target[i] - network->output_buffer[i];
  total_loss += diff * diff;\<close>
  The loop state is the local \<open>total_loss\<close>; the heap is only read. The difference of
  two equal infinities is NaN.
\<close>

definition loss_step :: "heap_t \<Rightarrow> ptr \<Rightarrow> ptr \<Rightarrow> nat \<Rightarrow> double \<Rightarrow> fault + double" where
  "loss_step h target outbuf i total_loss =
     (case load h target i of
        Inl e \<Rightarrow> Inl e
      | Inr t \<Rightarrow>
          (case load h outbuf i of
             Inl e \<Rightarrow> Inl e
           | Inr y \<Rightarrow> (let diff = t - y in Inr (total_loss + diff * diff))))"

text \<open>
  The status codes of the two passes are dropped, as the C code drops them.
  \<open>total_loss /= network->config.output_size\<close> divides by the output width converted to
  a double; for an output width of zero the quotient is NaN or \<open>+inf\<close>.
\<close>

definition agi_train_batch ::
  "agi_neural_network_t option \<Rightarrow> ptr \<Rightarrow> ptr \<Rightarrow> size_t \<Rightarrow> c_state \<Rightarrow> fault + (double \<times> c_state)" where
  "agi_train_batch network input target batch_size s =
     (case network of
        None \<Rightarrow> Inr (Fin (- 1), s)
      | Some net \<Rightarrow>
          if input = None \<or> target = None then Inr (Fin (- 1), s)
          else
            (case agi_forward_pass network input (output_buffer net) batch_size s of
               Inl e \<Rightarrow> Inl e
             | Inr (rc1, s1) \<Rightarrow>
                 (case for_loop 0 (unat (output_size (config net)))
                         (loss_step (heap s1) target (output_buffer net)) 0 of
                    Inl e \<Rightarrow> Inl e
                  | Inr total_loss \<Rightarrow>
                      (case agi_backward_pass network (output_buffer net) target
                              (gradient_buffer net) batch_size s1 of
                         Inl e \<Rightarrow> Inl e
                       | Inr (rc2, s2) \<Rightarrow>
                           Inr (total_loss / of_size (output_size (config net)), s2)))))"

text \<open>
  The loss that the specification names, written from its words: the mean over the output
  width of the squared differences between target and output,
  \<open>(1/output_width) \<cdot> \<Sum>(target - output)\<^sup>2\<close>, in double arithmetic, the sum accumulated
  from \<open>0.0\<close> in the order of the index.
\<close>

definition squared_error_sum :: "double list \<Rightarrow> double list \<Rightarrow> nat \<Rightarrow> double" where
  "squared_error_sum tv ov n =
     foldl (\<lambda>acc j. acc + (tv ! j - ov ! j) * (tv ! j - ov ! j)) 0 [0..<n]"

definition mean_squared_error :: "double list \<Rightarrow> double list \<Rightarrow> size_t \<Rightarrow> double" where
  "mean_squared_error tv ov width = squared_error_sum tv ov (unat width) / of_size width"

section \<open>Example inputs\<close>

text \<open>
  The configuration of the specification's example: input width 3, one hidden layer of
  width 4, output width 2. \<open>padded_config\<close> is the same configuration over an array
  of two widths, so that a read of \<open>hidden_layer_sizes[1]\<close> stays inside the array.
\<close>

definition example_config :: agi_neural_config_t where
  "example_config = \<lparr>input_size = 3, hidden_layers_count = 1, hidden_layer_sizes = [4],
     output_size = 2, learning_rate = Fin 0.01, momentum = Fin 0.9, use_batch_normalization = False,
     use_dropout = False, dropout_rate = 0\<rparr>"

definition padded_config :: agi_neural_config_t where
  "padded_config = example_config\<lparr>hidden_layer_sizes := [4, 4]\<rparr>"

text \<open>
  The largest width of the pipeline, from the words of the specification: the maximum over
  the input width, every hidden-layer width and the output width.
\<close>

definition largest_width :: "agi_neural_config_t \<Rightarrow> size_t" where
  "largest_width cfg =
     fold max (take (unat (hidden_layers_count cfg)) (hidden_layer_sizes cfg) @ [output_size cfg])
       (input_size cfg)"

text \<open>
  What a construction returned: the lengths of the three scratch buffers, and the shapes
  \<open>(input_size, output_size)\<close> of the layers.
\<close>

definition scratch_sizes ::
  "fault + (agi_neural_network_t option \<times> c_state) \<Rightarrow> (nat \<times> nat \<times> nat) option" where
  "scratch_sizes r =
     (case r of
        Inr (Some net, s) \<Rightarrow>
          (case (input_buffer net, output_buffer net, gradient_buffer net) of
             (Some ib, Some ob, Some gb) \<Rightarrow>
               (case (heap s ib, heap s ob, heap s gb) of
                  (Some iv, Some ov, Some gv) \<Rightarrow> Some (length iv, length ov, length gv)
                | _ \<Rightarrow> None)
           | _ \<Rightarrow> None)
      | _ \<Rightarrow> None)"

definition layer_shapes ::
  "fault + (agi_neural_network_t option \<times> c_state) \<Rightarrow> (size_t \<times> size_t) list option" where
  "layer_shapes r =
     (case r of
        Inr (Some net, s) \<Rightarrow>
          Some (map (\<lambda>l. (layer_input_size l, layer_output_size l)) (layers net))
      | _ \<Rightarrow> None)"

text \<open>
  A client that allocates its input and output buffers, constructs a network and runs one
  forward pass.
\<close>

definition forward_after_create :: "agi_neural_config_t \<Rightarrow> fault + (agi_error_t \<times> c_state)" where
  "forward_after_create cfg =
     (case libc_calloc (input_size cfg) (initial_state [] []) of
        (inp, s1) \<Rightarrow>
          (case libc_calloc (output_size cfg) s1 of
             (outp, s2) \<Rightarrow>
               (case agi_create_neural_network (Some cfg) s2 of
                  Inl e \<Rightarrow> Inl e
                | Inr (network, s3) \<Rightarrow> agi_forward_pass network inp outp 1 s3)))"

text \<open>
  A network of three layers of shape \<open>1 \<rightarrow> 1\<close>, as the constructor builds it from
  \<open>demo_config\<close> when \<open>rand()\<close> returns \<open>RAND_MAX\<close> three times: every weight is 1,
  every bias 0. \<open>demo_heap x y\<close> is its heap with \<open>x\<close> in the input buffer and \<open>y\<close>
  in the output buffer; \<open>demo_ready\<close> adds the caller's input \<open>[5]\<close> at address 10 and
  the caller's output buffer at address 11, and \<open>demo_after_forward\<close> is the state after
  one forward pass.
\<close>

definition demo_config :: agi_neural_config_t where
  "demo_config = \<lparr>input_size = 1, hidden_layers_count = 1, hidden_layer_sizes = [1, 1],
     output_size = 1, learning_rate = Fin 0.01, momentum = Fin 0.9, use_batch_normalization = False,
     use_dropout = False, dropout_rate = 0\<rparr>"

definition demo_net :: agi_neural_network_t where
  "demo_net = \<lparr>layers =
       [\<lparr>weights = Some 1, biases = Some 2, layer_input_size = 1, layer_output_size = 1,
          is_training = True\<rparr>,
        \<lparr>weights = Some 3, biases = Some 4, layer_input_size = 1, layer_output_size = 1,
          is_training = True\<rparr>,
        \<lparr>weights = Some 5, biases = Some 6, layer_input_size = 1, layer_output_size = 1,
          is_training = True\<rparr>],
     layer_count = 3, config = demo_config, input_buffer = Some 7, output_buffer = Some 8,
     gradient_buffer = Some 9, max_batch_size = 32\<rparr>"

definition demo_heap :: "double \<Rightarrow> double \<Rightarrow> heap_t" where
  "demo_heap x y =
     [1 \<mapsto> [1], 2 \<mapsto> [0], 3 \<mapsto> [1], 4 \<mapsto> [0], 5 \<mapsto> [1], 6 \<mapsto> [0],
      7 \<mapsto> [x], 8 \<mapsto> [y], 9 \<mapsto> [0]]"

definition demo_rand :: "nat list" where
  "demo_rand = [RAND_MAX, RAND_MAX, RAND_MAX]"

definition demo_built :: c_state where
  "demo_built = \<lparr>heap = demo_heap 0 0, next_addr = 10, alloc_plan = [], rand_plan = [],
     g_memory_stats = zero_stats\<rparr>"

definition demo_destroyed :: c_state where
  "demo_destroyed = \<lparr>heap = (\<lambda>a. None), next_addr = 10, alloc_plan = [], rand_plan = [],
     g_memory_stats = zero_stats\<rparr>"

definition demo_ready :: c_state where
  "demo_ready =
     demo_built\<lparr>heap := (demo_heap 0 0)(10 \<mapsto> [Fin 5], 11 \<mapsto> [0]), next_addr := 12\<rparr>"

definition demo_after_forward :: c_state where
  "demo_after_forward =
     demo_built\<lparr>heap := (demo_heap (Fin 5) (Fin 5))(10 \<mapsto> [Fin 5], 11 \<mapsto> [Fin 5]),
       next_addr := 12\<rparr>"

text \<open>
  A client that constructs a network, runs one forward pass from its input array \<open>xs\<close>
  into its output array, and then calls \<open>agi_train_batch\<close> on the same input with that
  output array as the target. It returns the output of the forward pass and the loss.
\<close>

definition read_block :: "heap_t \<Rightarrow> ptr \<Rightarrow> fault + double list" where
  "read_block h p =
     (case p of
        None \<Rightarrow> Inl OutOfBounds
      | Some a \<Rightarrow> (case h a of None \<Rightarrow> Inl OutOfBounds | Some ys \<Rightarrow> Inr ys))"

definition train_on_own_output ::
  "agi_neural_config_t \<Rightarrow> nat list \<Rightarrow> double list \<Rightarrow> fault + (double list \<times> double)" where
  "train_on_own_output cfg rp xs =
     (case agi_create_neural_network (Some cfg) (initial_state [] rp) of
        Inl e \<Rightarrow> Inl e
      | Inr (network, s1) \<Rightarrow>
          (case new_block True xs s1 of
             (inp, s2) \<Rightarrow>
               (case libc_calloc (output_size cfg) s2 of
                  (outp, s3) \<Rightarrow>
                    (case agi_forward_pass network inp outp 1 s3 of
                       Inl e \<Rightarrow> Inl e
                     | Inr (rc, s4) \<Rightarrow>
                         (case read_block (heap s4) outp of
                            Inl e \<Rightarrow> Inl e
                          | Inr ys \<Rightarrow>
                              (case agi_train_batch network inp outp 1 s4 of
                                 Inl e \<Rightarrow> Inl e
                               | Inr (loss, s5) \<Rightarrow> Inr (ys, loss)))))))"

text \<open>
  Two configurations for it. \<open>wide_config\<close> gives two layers of shape \<open>4 \<rightarrow> 4\<close>; when
  \<open>rand()\<close> returns \<open>RAND_MAX\<close> for each of the 32 weights, every weight is
  \<open>(1 - 0.5) * 2 * sqrt(2 / 8) = 0.5\<close>. \<open>empty_config\<close> has the output width 0: its
  layers have the shapes \<open>1 \<rightarrow> 0\<close> and \<open>0 \<rightarrow> 0\<close>.
\<close>

definition wide_config :: agi_neural_config_t where
  "wide_config = \<lparr>input_size = 4, hidden_layers_count = 0, hidden_layer_sizes = [4],
     output_size = 4, learning_rate = Fin 0.01, momentum = Fin 0.9,
     use_batch_normalization = False, use_dropout = False, dropout_rate = 0\<rparr>"

definition wide_rand :: "nat list" where
  "wide_rand = replicate 32 RAND_MAX"

definition empty_config :: agi_neural_config_t where
  "empty_config = \<lparr>input_size = 1, hidden_layers_count = 0, hidden_layer_sizes = [0],
     output_size = 0, learning_rate = Fin 0.01, momentum = Fin 0.9,
     use_batch_normalization = False, use_dropout = False, dropout_rate = 0\<rparr>"

text \<open>
  The network that the constructor builds from \<open>wide_config\<close> and \<open>wide_rand\<close>, and
  the states of the client's run on the input \<open>[DBL_MAX, DBL_MAX, DBL_MAX, DBL_MAX]\<close>:
  \<open>wide_heap xs ys gs\<close> is the heap of the network with \<open>xs\<close>, \<open>ys\<close> and \<open>gs\<close> in
  the input, output and gradient scratch buffers; the client's input array is at address
  8 and its output array at address 9.
\<close>

definition half_row :: "double list" where
  "half_row = [Fin (1 / 2), Fin (1 / 2), Fin (1 / 2), Fin (1 / 2)]"

definition wide_net :: agi_neural_network_t where
  "wide_net = \<lparr>layers =
       [\<lparr>weights = Some 1, biases = Some 2, layer_input_size = 4, layer_output_size = 4,
          is_training = True\<rparr>,
        \<lparr>weights = Some 3, biases = Some 4, layer_input_size = 4, layer_output_size = 4,
          is_training = True\<rparr>],
     layer_count = 2, config = wide_config, input_buffer = Some 5, output_buffer = Some 6,
     gradient_buffer = Some 7, max_batch_size = 32\<rparr>"

definition wide_heap :: "double list \<Rightarrow> double list \<Rightarrow> double list \<Rightarrow> heap_t" where
  "wide_heap xs ys gs =
     [1 \<mapsto> half_row @ half_row @ half_row @ half_row, 2 \<mapsto> [0, 0, 0, 0],
      3 \<mapsto> half_row @ half_row @ half_row @ half_row, 4 \<mapsto> [0, 0, 0, 0],
      5 \<mapsto> xs, 6 \<mapsto> ys, 7 \<mapsto> gs]"

definition wide_built :: c_state where
  "wide_built = \<lparr>heap = wide_heap [0, 0, 0, 0] [0, 0, 0, 0] [0, 0, 0, 0], next_addr = 8,
     alloc_plan = [], rand_plan = [], g_memory_stats = zero_stats\<rparr>"

definition wide_input :: "double list" where
  "wide_input = [Fin DBL_MAX, Fin DBL_MAX, Fin DBL_MAX, Fin DBL_MAX]"

definition wide_ready :: c_state where
  "wide_ready = wide_built\<lparr>heap := (wide_heap [0, 0, 0, 0] [0, 0, 0, 0] [0, 0, 0, 0])
       (8 \<mapsto> wide_input, 9 \<mapsto> [0, 0, 0, 0]),
     next_addr := 10\<rparr>"

definition wide_after_forward :: c_state where
  "wide_after_forward = wide_built\<lparr>heap :=
       (wide_heap [PInf, PInf, PInf, PInf] [PInf, PInf, PInf, PInf] [0, 0, 0, 0])
       (8 \<mapsto> wide_input, 9 \<mapsto> [PInf, PInf, PInf, PInf]),
     next_addr := 10\<rparr>"

definition wide_after_train :: c_state where
  "wide_after_train = wide_built\<lparr>heap :=
       (wide_heap [PInf, PInf, PInf, PInf] [PInf, PInf, PInf, PInf] [NaN, NaN, NaN, NaN])
       (8 \<mapsto> wide_input, 9 \<mapsto> [PInf, PInf, PInf, PInf]),
     next_addr := 10\<rparr>"

text \<open>The tracker after one allocation of 8 bytes, and after freeing the block again.\<close>

definition tracker_demo_mid :: c_state where
  "tracker_demo_mid = \<lparr>heap = [1 \<mapsto> [0]], next_addr = 2, alloc_plan = [], rand_plan = [],
     g_memory_stats = \<lparr>total_memory = 8, used_memory = 8, peak_memory = 8,
       allocation_count = 1, deallocation_count = 0, fragmentation_ratio = 0\<rparr>\<rparr>"

definition tracker_demo_end :: c_state where
  "tracker_demo_end = \<lparr>heap = (\<lambda>a. None), next_addr = 2, alloc_plan = [], rand_plan = [],
     g_memory_stats = \<lparr>total_memory = 8, used_memory = 8, peak_memory = 8,
       allocation_count = 1, deallocation_count = 1, fragmentation_ratio = 0\<rparr>\<rparr>"

section \<open>Heap frames\<close>

text \<open>
  \<open>writes_only P h h'\<close>: from \<open>h\<close> to \<open>h'\<close> every block keeps its length, and the
  blocks that no pointer of \<open>P\<close> designates keep their contents.
\<close>

definition writes_only :: "ptr set \<Rightarrow> heap_t \<Rightarrow> heap_t \<Rightarrow> bool" where
  "writes_only P h h' \<longleftrightarrow>
     (\<forall>a. map_option length (h' a) = map_option length (h a)) \<and>
     (\<forall>a. Some a \<notin> P \<longrightarrow> h' a = h a)"

section \<open>Results: doubles\<close>

lemmas double_arith =
  zero_double_def one_double_def plus_double_def uminus_double_def minus_double_def
  times_double_def divide_double_def less_double_def of_size_def
  fl_def DBL_OVERFLOW_def DBL_UNDERFLOW_def DBL_MAX_def

text \<open>\<open>exp(1000.0)\<close> is above the range of the doubles, \<open>exp(-1000.0)\<close> below it.\<close>

lemma exp_1000_lower: "(2::real) ^ 1125 \<le> exp 1000"
proof -
  have a: "(3 / 2 :: real) \<le> exp (1 / 2)"
    using exp_ge_add_one_self [of "1 / 2 :: real"] by simp
  have "(2::real) ^ 9 \<le> (3 / 2) ^ 16"
    by (simp add: power_divide)
  then have "((2::real) ^ 9) ^ 125 \<le> ((3 / 2) ^ 16) ^ 125"
    by (rule power_mono) simp
  then have b: "(2::real) ^ 1125 \<le> (3 / 2) ^ 2000"
    by (simp only: power_mult [symmetric] mult_numeral_left_semiring_numeral
        numeral_times_numeral semiring_norm)
  have "(3 / 2 :: real) ^ 2000 \<le> exp (1 / 2) ^ 2000"
    using a by (intro power_mono) simp_all
  also have "\<dots> = exp (of_nat 2000 * (1 / 2))"
    by (simp only: exp_of_nat_mult)
  also have "\<dots> = exp 1000"
    by simp
  finally show ?thesis
    using b by linarith
qed

lemma fl_exp_1000: "fl (exp 1000) = PInf"
proof -
  have "(2::real) ^ 1024 \<le> 2 ^ 1125"
    by (rule power_increasing) simp_all
  with exp_1000_lower have "DBL_OVERFLOW \<le> exp 1000"
    by (simp add: DBL_OVERFLOW_def)
  then show ?thesis
    by (simp add: fl_def)
qed

lemma fl_exp_minus_1000: "fl (exp (- 1000)) = Fin 0"
proof -
  have "(2::real) ^ 1075 \<le> 2 ^ 1125"
    by (rule power_increasing) simp_all
  with exp_1000_lower have big: "(2::real) ^ 1075 \<le> exp 1000"
    by linarith
  have "exp (- 1000 :: real) = 1 / exp 1000"
    by (simp add: exp_minus inverse_eq_divide)
  also have "\<dots> \<le> 1 / 2 ^ 1075"
    using big by (intro divide_left_mono) simp_all
  finally have small: "exp (- 1000 :: real) \<le> DBL_UNDERFLOW"
    by (simp add: DBL_UNDERFLOW_def)
  have range: "0 < DBL_OVERFLOW" "DBL_UNDERFLOW < DBL_OVERFLOW"
    by (simp_all add: DBL_OVERFLOW_def DBL_UNDERFLOW_def)
  have pos: "0 < exp (- 1000 :: real)"
    by simp
  from small range have a: "\<not> DBL_OVERFLOW \<le> exp (- 1000)"
    by linarith
  from pos range have b: "\<not> exp (- 1000) \<le> - DBL_OVERFLOW"
    by linarith
  from small have c: "\<bar>exp (- 1000 :: real)\<bar> \<le> DBL_UNDERFLOW"
    by simp
  show ?thesis
    unfolding fl_def by (simp only: a b c if_True if_False)
qed

lemma sqrt_quarter: "sqrt (1 / 4) = 1 / 2"
  by (simp add: real_sqrt_divide)

text \<open>A finite double minus itself is zero, and so is the square of that difference.\<close>

lemma finite_self_difference:
  "is_finite x \<Longrightarrow> (0::double) + (x - x) * (x - x) = 0"
  by (cases x) (simp_all add: double_arith)

lemma fl_zero: "fl 0 = Fin 0"
  by (simp add: fl_def DBL_OVERFLOW_def DBL_UNDERFLOW_def)

lemma zero_over_width:
  assumes "0 < unat w"
  shows "(0::double) / of_size w = 0"
proof -
  from assms have "unat w \<noteq> 0" by arith
  then have "real (unat w) \<noteq> 0" by (simp only: of_nat_eq_0_iff not_False_eq_True)
  then show ?thesis
    by (simp add: zero_double_def divide_double_def of_size_def fl_zero)
qed

section \<open>Results: numeric kernels\<close>

lemma elementwise_loop_length:
  "elementwise_loop f a b r i n = Inr r' \<Longrightarrow> length r' = length r"
proof (induction f a b r i n rule: elementwise_loop.induct)
  case (1 f a b r i n)
  then show ?case
    by (subst (asm) (2) elementwise_loop.simps) (auto split: if_splits)
qed

lemma elementwise_loop_run:
  "n \<le> length a \<Longrightarrow> n \<le> length b \<Longrightarrow> n \<le> length r \<Longrightarrow> i \<le> n \<Longrightarrow>
   \<exists>r'. elementwise_loop f a b r i n = Inr r' \<and> length r' = length r \<and>
     (\<forall>j < length r. r' ! j = (if i \<le> j \<and> j < n then f (a ! j) (b ! j) else r ! j))"
proof (induction f a b r i n rule: elementwise_loop.induct)
  case (1 f a b r i n)
  show ?case
  proof (cases "i < n")
    case False
    with "1.prems" show ?thesis
      by (subst elementwise_loop.simps) auto
  next
    case True
    with "1.prems" have inb: "i < length a \<and> i < length b \<and> i < length r"
      by auto
    from "1.IH" [OF True inb] "1.prems" True
    obtain r' where r': "elementwise_loop f a b (r[i := f (a ! i) (b ! i)]) (Suc i) n = Inr r'"
        "length r' = length r"
        "\<forall>j < length r. r' ! j =
           (if Suc i \<le> j \<and> j < n then f (a ! j) (b ! j) else r[i := f (a ! i) (b ! i)] ! j)"
      by auto
    have "elementwise_loop f a b r i n = Inr r'"
      using True inb r'(1) by (subst elementwise_loop.simps) simp
    moreover have "\<forall>j < length r. r' ! j = (if i \<le> j \<and> j < n then f (a ! j) (b ! j) else r ! j)"
    proof (intro allI impI)
      fix j assume j: "j < length r"
      show "r' ! j = (if i \<le> j \<and> j < n then f (a ! j) (b ! j) else r ! j)"
        using r'(3) j True inb by (cases "j = i") (auto simp: nth_list_update)
    qed
    ultimately show ?thesis using r'(2) by blast
  qed
qed

lemma elementwise_loop_result:
  assumes "n \<le> length a" "n \<le> length b" "n \<le> length r"
  shows "elementwise_loop f a b r 0 n = Inr (map2 f (take n a) (take n b) @ drop n r)"
proof -
  from elementwise_loop_run [OF assms, of 0 f]
  obtain r' where r': "elementwise_loop f a b r 0 n = Inr r'" "length r' = length r"
      "\<forall>j < length r. r' ! j = (if j < n then f (a ! j) (b ! j) else r ! j)"
    by auto
  have "r' = map2 f (take n a) (take n b) @ drop n r"
  proof (rule nth_equalityI)
    show "length r' = length (map2 f (take n a) (take n b) @ drop n r)"
      using assms r'(2) by simp
  next
    fix j assume "j < length r'"
    then have j: "j < length r" using r'(2) by simp
    show "r' ! j = (map2 f (take n a) (take n b) @ drop n r) ! j"
      using r'(3) j assms by (auto simp: nth_append)
  qed
  with r'(1) show ?thesis by simp
qed

lemma matrix_multiply_result_unchanged:
  "agi_matrix_multiply_simd a b r m n k = Inr (rc, r') \<Longrightarrow> r' = r"
  by (auto simp: agi_matrix_multiply_simd_def split: option.splits)

text \<open>
  C1 (code defect). The claim asks \<open>agi_matrix_multiply_simd\<close> to write the product into
  \<open>result\<close>. The function returns success and leaves \<open>result\<close> as it was: for the
  \<open>1 \<times> 1\<close> matrices \<open>A = [2]\<close> and \<open>B = [3]\<close> and a result buffer holding \<open>0\<close>, the
  buffer still holds \<open>0\<close> afterwards, where the product is \<open>6\<close>.
\<close>

theorem C1_matrix_multiply_leaves_result:
  "agi_matrix_multiply_simd (Some [Fin 2]) (Some [Fin 3]) (Some [Fin 0]) 1 1 1
     = Inr (AGI_SUCCESS, Some [Fin 0])
   \<and> matrix_product_spec [Fin 2] [Fin 3] 1 1 1 = [Fin 6]"
  by (simp add: agi_matrix_multiply_simd_def matrix_product_spec_def double_arith)

text \<open>
  C7. Each of \<open>agi_matrix_add\<close>, \<open>agi_matrix_subtract\<close> and
  \<open>agi_matrix_element_multiply\<close> returns \<open>AGI_ERROR_NULL_POINTER\<close> exactly when one of
  its three buffers is absent (and then writes nothing); with three buffers of at least
  \<open>size\<close> elements it succeeds, the first \<open>size\<close> elements of \<open>result\<close> are the
  elementwise sum, difference or product, and the rest of \<open>result\<close> is unchanged.
\<close>

theorem C7_elementwise_kernels:
  fixes av bv rv :: "double list" and sz :: size_t
  defines "n \<equiv> unat sz"
  shows "(a = None \<or> b = None \<or> r = None \<longrightarrow>
            agi_matrix_add a b r sz = Inr (AGI_ERROR_NULL_POINTER, r)
          \<and> agi_matrix_subtract a b r sz = Inr (AGI_ERROR_NULL_POINTER, r)
          \<and> agi_matrix_element_multiply a b r sz = Inr (AGI_ERROR_NULL_POINTER, r))
       \<and> (\<forall>x. agi_matrix_add (Some av) (Some bv) (Some rv) sz \<noteq> Inr (AGI_ERROR_NULL_POINTER, x))
       \<and> (\<forall>x. agi_matrix_subtract (Some av) (Some bv) (Some rv) sz
                 \<noteq> Inr (AGI_ERROR_NULL_POINTER, x))
       \<and> (\<forall>x. agi_matrix_element_multiply (Some av) (Some bv) (Some rv) sz
                 \<noteq> Inr (AGI_ERROR_NULL_POINTER, x))
       \<and> (n \<le> length av \<and> n \<le> length bv \<and> n \<le> length rv \<longrightarrow>
            agi_matrix_add (Some av) (Some bv) (Some rv) sz
              = Inr (AGI_SUCCESS, Some (map2 (\<lambda>x y. x + y) (take n av) (take n bv) @ drop n rv))
          \<and> agi_matrix_subtract (Some av) (Some bv) (Some rv) sz
              = Inr (AGI_SUCCESS, Some (map2 (\<lambda>x y. x - y) (take n av) (take n bv) @ drop n rv))
          \<and> agi_matrix_element_multiply (Some av) (Some bv) (Some rv) sz
              = Inr (AGI_SUCCESS, Some (map2 (\<lambda>x y. x * y) (take n av) (take n bv) @ drop n rv)))"
proof -
  have absent: "agi_matrix_add a b r sz = Inr (AGI_ERROR_NULL_POINTER, r)
      \<and> agi_matrix_subtract a b r sz = Inr (AGI_ERROR_NULL_POINTER, r)
      \<and> agi_matrix_element_multiply a b r sz = Inr (AGI_ERROR_NULL_POINTER, r)"
    if "a = None \<or> b = None \<or> r = None"
    using that
    by (auto simp: agi_matrix_add_def agi_matrix_subtract_def agi_matrix_element_multiply_def
        split: option.splits)
  have present: "agi_matrix_add (Some av) (Some bv) (Some rv) sz \<noteq> Inr (AGI_ERROR_NULL_POINTER, x)"
    "agi_matrix_subtract (Some av) (Some bv) (Some rv) sz \<noteq> Inr (AGI_ERROR_NULL_POINTER, x)"
    "agi_matrix_element_multiply (Some av) (Some bv) (Some rv) sz \<noteq> Inr (AGI_ERROR_NULL_POINTER, x)"
    for x
    by (simp_all add: agi_matrix_add_def agi_matrix_subtract_def agi_matrix_element_multiply_def
        split: sum.splits)
  have fits: "agi_matrix_add (Some av) (Some bv) (Some rv) sz
        = Inr (AGI_SUCCESS, Some (map2 (\<lambda>x y. x + y) (take n av) (take n bv) @ drop n rv))
      \<and> agi_matrix_subtract (Some av) (Some bv) (Some rv) sz
        = Inr (AGI_SUCCESS, Some (map2 (\<lambda>x y. x - y) (take n av) (take n bv) @ drop n rv))
      \<and> agi_matrix_element_multiply (Some av) (Some bv) (Some rv) sz
        = Inr (AGI_SUCCESS, Some (map2 (\<lambda>x y. x * y) (take n av) (take n bv) @ drop n rv))"
    if len: "n \<le> length av" "n \<le> length bv" "n \<le> length rv"
    using len
    by (simp add: agi_matrix_add_def agi_matrix_subtract_def agi_matrix_element_multiply_def
        n_def elementwise_loop_result)
  from absent present fits show ?thesis by blast
qed

theorem C7_elementwise_kernels_witness:
  "agi_matrix_add (Some [Fin 1, Fin 2]) (Some [Fin 3, Fin 5]) (Some [Fin 0, Fin 0, Fin 9]) 2
       = Inr (AGI_SUCCESS, Some [Fin 4, Fin 7, Fin 9])
   \<and> agi_matrix_subtract (Some [Fin 1, Fin 2]) (Some [Fin 3, Fin 5]) (Some [Fin 0, Fin 0, Fin 9]) 2
       = Inr (AGI_SUCCESS, Some [Fin (- 2), Fin (- 3), Fin 9])
   \<and> agi_matrix_element_multiply (Some [Fin 1, Fin 2]) (Some [Fin 3, Fin 5])
         (Some [Fin 0, Fin 0, Fin 9]) 2
       = Inr (AGI_SUCCESS, Some [Fin 3, Fin 10, Fin 9])
   \<and> agi_matrix_add None (Some [Fin 3, Fin 5]) (Some [Fin 0, Fin 0, Fin 9]) 2
       = Inr (AGI_ERROR_NULL_POINTER, Some [Fin 0, Fin 0, Fin 9])"
  using C7_elementwise_kernels [of None "Some [Fin 3, Fin 5]" "Some [Fin 0, Fin 0, Fin 9]" 2
      "[Fin 1, Fin 2]" "[Fin 3, Fin 5]" "[Fin 0, Fin 0, Fin 9]"]
  by (simp add: double_arith)

section \<open>Results: activation library\<close>

lemmas activation_tags =
  AGI_ACTIVATION_SIGMOID_def AGI_ACTIVATION_TANH_def AGI_ACTIVATION_RELU_def
  AGI_ACTIVATION_LEAKY_RELU_def AGI_ACTIVATION_SWISH_def AGI_ACTIVATION_GELU_def
  AGI_ACTIVATION_SOFTMAX_def


lemma pointwise_loop_run:
  "n \<le> length inp \<Longrightarrow> n \<le> length out \<Longrightarrow> i \<le> n \<Longrightarrow>
   \<exists>r'. pointwise_loop g inp out i n = Inr r' \<and> length r' = length out \<and>
     (\<forall>j < length out. r' ! j = (if i \<le> j \<and> j < n then g (inp ! j) else out ! j))"
proof (induction g inp out i n rule: pointwise_loop.induct)
  case (1 g inp out i n)
  show ?case
  proof (cases "i < n")
    case False
    with "1.prems" show ?thesis
      by (subst pointwise_loop.simps) auto
  next
    case True
    with "1.prems" have inb: "i < length inp \<and> i < length out"
      by auto
    from "1.IH" [OF True inb] "1.prems" True
    obtain r' where r': "pointwise_loop g inp (out[i := g (inp ! i)]) (Suc i) n = Inr r'"
        "length r' = length out"
        "\<forall>j < length out. r' ! j =
           (if Suc i \<le> j \<and> j < n then g (inp ! j) else out[i := g (inp ! i)] ! j)"
      by auto
    have "pointwise_loop g inp out i n = Inr r'"
      using True inb r'(1) by (subst pointwise_loop.simps) simp
    moreover have "\<forall>j < length out. r' ! j = (if i \<le> j \<and> j < n then g (inp ! j) else out ! j)"
    proof (intro allI impI)
      fix j assume j: "j < length out"
      show "r' ! j = (if i \<le> j \<and> j < n then g (inp ! j) else out ! j)"
        using r'(3) j True inb by (cases "j = i") (auto simp: nth_list_update)
    qed
    ultimately show ?thesis using r'(2) by blast
  qed
qed

lemma pointwise_loop_result:
  assumes "n \<le> length inp" "n \<le> length out"
  shows "pointwise_loop g inp out 0 n = Inr (map g (take n inp) @ drop n out)"
proof -
  from pointwise_loop_run [OF assms, of 0 g]
  obtain r' where r': "pointwise_loop g inp out 0 n = Inr r'" "length r' = length out"
      "\<forall>j < length out. r' ! j = (if j < n then g (inp ! j) else out ! j)"
    by auto
  have "r' = map g (take n inp) @ drop n out"
  proof (rule nth_equalityI)
    show "length r' = length (map g (take n inp) @ drop n out)"
      using assms r'(2) by simp
  next
    fix j assume "j < length r'"
    then have j: "j < length out" using r'(2) by simp
    show "r' ! j = (map g (take n inp) @ drop n out) ! j"
      using r'(3) j assms by (auto simp: nth_append)
  qed
  with r'(1) show ?thesis by simp
qed

lemma unrecognised_switch:
  "t < 0 \<or> 6 < t \<Longrightarrow> activation_switch t = (\<lambda>x. x) \<and> derivative_switch t = (\<lambda>x. 1)"
  by (auto simp: activation_switch_def derivative_switch_def activation_tags fun_eq_iff)

text \<open>
  C4 (amended). For a tag outside the seven enumerators and buffers of at least \<open>size\<close>
  elements, both operations return success; \<open>agi_apply_activation\<close> copies the first
  \<open>size\<close> elements of the input to the output, and \<open>agi_apply_activation_derivative\<close>
  stores \<open>1.0\<close> in each of the first \<open>size\<close> elements of the output (the derivative of
  the identity), not the input.
\<close>

theorem C4_unrecognised_tag:
  assumes "t < AGI_ACTIVATION_SIGMOID \<or> AGI_ACTIVATION_SOFTMAX < t"
    and "unat sz \<le> length inp" and "unat sz \<le> length out"
  shows "agi_apply_activation (Some inp) (Some out) sz t
           = Inr (AGI_SUCCESS, Some (take (unat sz) inp @ drop (unat sz) out))
       \<and> agi_apply_activation_derivative (Some inp) (Some out) sz t
           = Inr (AGI_SUCCESS, Some (replicate (unat sz) 1 @ drop (unat sz) out))"
proof -
  from assms(1) have t: "t < 0 \<or> 6 < t" by (simp add: activation_tags)
  then have nsm: "t \<noteq> AGI_ACTIVATION_SOFTMAX" by (auto simp add: activation_tags)
  have m: "map (\<lambda>x. 1::double) (take (unat sz) inp) = replicate (unat sz) 1"
    using assms(2) by (simp add: map_replicate_const)
  show ?thesis
    using nsm m unrecognised_switch [OF t]
    by (simp add: agi_apply_activation_def agi_apply_activation_derivative_def
        pointwise_loop_result [OF assms(2,3)])
qed

theorem C4_unrecognised_tag_witness:
  "agi_apply_activation (Some [Fin 5, Fin (- 3)]) (Some [0, 0]) 2 7
     = Inr (AGI_SUCCESS, Some [Fin 5, Fin (- 3)])
   \<and> agi_apply_activation_derivative (Some [Fin 5, Fin (- 3)]) (Some [0, 0]) 2 7
     = Inr (AGI_SUCCESS, Some [1, 1])"
proof -
  have r: "replicate 2 (1::double) = [1, 1]"
    by (simp add: numeral_2_eq_2)
  show ?thesis
    using C4_unrecognised_tag [of 7 2 "[Fin 5, Fin (- 3)]" "[0, 0]"]
    by (simp add: activation_tags r)
qed

text \<open>
  C4 as stated fails for the derivative: with the unrecognised tag \<open>7\<close> and the input
  \<open>[5, -3]\<close> the derivative operation leaves \<open>[1, 1]\<close> in the output, which is not
  the input.
\<close>

theorem C4_derivative_counterexample:
  "agi_apply_activation_derivative (Some [Fin 5, Fin (- 3)]) (Some [0, 0]) 2 7
     = Inr (AGI_SUCCESS, Some [1, 1])
   \<and> 7 \<notin> {AGI_ACTIVATION_SIGMOID, AGI_ACTIVATION_TANH, AGI_ACTIVATION_RELU,
        AGI_ACTIVATION_LEAKY_RELU, AGI_ACTIVATION_SWISH, AGI_ACTIVATION_GELU, AGI_ACTIVATION_SOFTMAX}
   \<and> [1, 1] \<noteq> [Fin 5, Fin (- 3)]"
  by (simp add: agi_apply_activation_derivative_def derivative_switch_def activation_tags
      pointwise_loop.simps one_double_def)

text \<open>
  C8 (code defect). The claim asks the softmax outputs of every non-empty finite input to
  sum to 1. The code takes the exponential of each input as it is and divides by the sum
  of the exponentials. For the one-element input \<open>[1000.0]\<close> the exponential overflows
  to \<open>+inf\<close>, the sum is \<open>+inf\<close>, and \<open>inf / inf\<close> leaves NaN in the output; for
  \<open>[-1000.0]\<close> the exponential underflows to \<open>0.0\<close>, the sum is \<open>0.0\<close>, and
  \<open>0 / 0\<close> leaves NaN in the output. Both calls return success, and the sum of the
  output is NaN, not 1.
\<close>

theorem C8_softmax_out_of_range:
  "agi_apply_activation (Some [Fin 1000]) (Some [0]) 1 AGI_ACTIVATION_SOFTMAX
     = Inr (AGI_SUCCESS, Some [NaN])
   \<and> agi_apply_activation (Some [Fin (- 1000)]) (Some [0]) 1 AGI_ACTIVATION_SOFTMAX
     = Inr (AGI_SUCCESS, Some [NaN])
   \<and> softmax_sum_loop [NaN] 0 1 0 = Inr NaN
   \<and> is_finite (Fin 1000) \<and> is_finite (Fin (- 1000)) \<and> NaN \<noteq> (1::double)"
  by (simp add: agi_apply_activation_def activation_switch_def activation_tags
      pointwise_loop.simps softmax_sum_loop.simps softmax_div_loop.simps
      fl_exp_1000 fl_exp_minus_1000 fl_zero zero_double_def one_double_def plus_double_def
      divide_double_def)

section \<open>Results: allocator tracker\<close>

lemma alloc_fail_stats:
  "agi_aligned_alloc sz al s = (None, s') \<Longrightarrow> g_memory_stats s' = g_memory_stats s"
  by (auto simp: agi_aligned_alloc_def libc_aligned_alloc_def new_block_def plan_step_def Let_def
      split: if_splits)

lemma alloc_ok_stats:
  assumes "agi_aligned_alloc sz al s = (Some a, s')"
  shows "total_memory (g_memory_stats s') = total_memory (g_memory_stats s) + sz"
    and "used_memory (g_memory_stats s') = used_memory (g_memory_stats s) + sz"
    and "allocation_count (g_memory_stats s') = allocation_count (g_memory_stats s) + 1"
    and "deallocation_count (g_memory_stats s') = deallocation_count (g_memory_stats s)"
    and "peak_memory (g_memory_stats s') =
          (if used_memory (g_memory_stats s) + sz > peak_memory (g_memory_stats s)
           then used_memory (g_memory_stats s) + sz else peak_memory (g_memory_stats s))"
  using assms
  by (auto simp: agi_aligned_alloc_def libc_aligned_alloc_def new_block_def plan_step_def Let_def
      split: if_splits)

lemma free_stats:
  assumes "agi_aligned_free p s = Inr (rc, s')"
  shows "total_memory (g_memory_stats s') = total_memory (g_memory_stats s)"
    and "used_memory (g_memory_stats s') = used_memory (g_memory_stats s)"
    and "peak_memory (g_memory_stats s') = peak_memory (g_memory_stats s)"
    and "allocation_count (g_memory_stats s') = allocation_count (g_memory_stats s)"
    and "deallocation_count (g_memory_stats s') =
          (if p = None then deallocation_count (g_memory_stats s)
           else deallocation_count (g_memory_stats s) + 1)"
    and "rc = (if p = None then AGI_ERROR_NULL_POINTER else AGI_SUCCESS)"
  using assms
  by (auto simp: agi_aligned_free_def libc_free_def Let_def split: option.splits sum.splits)

lemma alloc_used_le_peak:
  assumes "agi_aligned_alloc sz al s = (p, s')"
    and "used_memory (g_memory_stats s) \<le> peak_memory (g_memory_stats s)"
  shows "used_memory (g_memory_stats s') \<le> peak_memory (g_memory_stats s')"
proof (cases p)
  case None
  with assms show ?thesis by (simp add: alloc_fail_stats)
next
  case (Some a)
  with assms(1) have "agi_aligned_alloc sz al s = (Some a, s')" by simp
  from alloc_ok_stats(2,5) [OF this] show ?thesis by auto
qed

lemma run_calls_used_le_peak:
  "run_calls cs s = Inr s' \<Longrightarrow>
   used_memory (g_memory_stats s) \<le> peak_memory (g_memory_stats s) \<Longrightarrow>
   used_memory (g_memory_stats s') \<le> peak_memory (g_memory_stats s')"
proof (induction cs s rule: run_calls.induct)
  case (1 s)
  then show ?case by simp
next
  case (2 sz alignment cs s)
  obtain p s1 where a: "agi_aligned_alloc sz alignment s = (p, s1)"
    by (cases "agi_aligned_alloc sz alignment s")
  from alloc_used_le_peak [OF a "2.prems"(2)] "2.IH" "2.prems"(1) a
  show ?case by simp
next
  case (3 p cs s)
  from "3.prems"(1) obtain rc s1 where f: "agi_aligned_free p s = Inr (rc, s1)"
    and r: "run_calls cs s1 = Inr s'"
    by (auto split: sum.splits)
  from free_stats(2,3) [OF f] "3.prems"(2)
  have "used_memory (g_memory_stats s1) \<le> peak_memory (g_memory_stats s1)" by simp
  from "3.IH" [OF f refl r this] show ?case .
qed

lemma run_calls_append:
  "run_calls (xs @ ys) s =
     (case run_calls xs s of Inl e \<Rightarrow> Inl e | Inr s' \<Rightarrow> run_calls ys s')"
  by (induction xs s rule: run_calls.induct) (auto split: sum.splits)

lemma cycle_step:
  assumes "alloc_plan s = []"
  shows "\<exists>s'. run_calls [Alloc sz al, Free (Some (next_addr s))] s = Inr s'
     \<and> alloc_plan s' = [] \<and> next_addr s' = Suc (next_addr s)
     \<and> used_memory (g_memory_stats s') = used_memory (g_memory_stats s) + sz"
  using assms
  by (simp add: agi_aligned_alloc_def libc_aligned_alloc_def new_block_def plan_step_def
      next_alloc_ok_def agi_aligned_free_def libc_free_def Let_def)

lemma cycle_calls_run:
  "alloc_plan s = [] \<Longrightarrow> next_addr s = a \<Longrightarrow>
   \<exists>s'. run_calls (cycle_calls n sz al a) s = Inr s' \<and> alloc_plan s' = []
     \<and> next_addr s' = a + n
     \<and> used_memory (g_memory_stats s') = used_memory (g_memory_stats s) + of_nat n * sz"
proof (induction n arbitrary: s a)
  case 0
  then show ?case by simp
next
  case (Suc n)
  from cycle_step [OF Suc.prems(1), of sz al] Suc.prems(2)
  obtain s1 where s1: "run_calls [Alloc sz al, Free (Some a)] s = Inr s1"
      "alloc_plan s1 = []" "next_addr s1 = Suc a"
      "used_memory (g_memory_stats s1) = used_memory (g_memory_stats s) + sz"
    by auto
  from Suc.IH [OF s1(2,3)]
  obtain s' where s': "run_calls (cycle_calls n sz al (Suc a)) s1 = Inr s'"
      "alloc_plan s' = []" "next_addr s' = Suc a + n"
      "used_memory (g_memory_stats s') = used_memory (g_memory_stats s1) + of_nat n * sz"
    by auto
  have "cycle_calls (Suc n) sz al a = [Alloc sz al, Free (Some a)] @ cycle_calls n sz al (Suc a)"
    by simp
  then have "run_calls (cycle_calls (Suc n) sz al a) s = Inr s'"
    using s1(1) s'(1) by (simp only: run_calls_append sum.case)
  moreover have "used_memory (g_memory_stats s') = used_memory (g_memory_stats s) + of_nat (Suc n) * sz"
    using s1(4) s'(4) by (simp add: algebra_simps)
  ultimately show ?case using s'(2,3) by auto
qed

text \<open>
  C6 as stated fails: \<open>used_memory\<close> is a \<open>size_t\<close> that only ever grows, and it
  wraps around. A client that allocates and frees a block of 1 GiB \<open>2^34 - 1\<close> times
  leaves \<open>used_memory\<close> at \<open>2^64 - 2^30\<close>; one more successful allocation of 1 GiB
  takes it down to 0.
\<close>

theorem C6_used_memory_wraps:
  "used_after (cycle_calls (2 ^ 34 - 1) (2 ^ 30) 64 1) = Inr (2 ^ 64 - 2 ^ 30)
   \<and> used_after (cycle_calls (2 ^ 34 - 1) (2 ^ 30) 64 1 @ [Alloc (2 ^ 30) 64]) = Inr 0"
proof -
  let ?s0 = "initial_state [] []"
  have p: "alloc_plan ?s0 = []" and a: "next_addr ?s0 = 1"
    and u: "used_memory (g_memory_stats ?s0) = 0"
    by (simp_all add: initial_state_def zero_stats_def)
  from cycle_calls_run [OF p a, of "2 ^ 34 - 1" "2 ^ 30" 64]
  obtain s' where s': "run_calls (cycle_calls (2 ^ 34 - 1) (2 ^ 30) 64 1) ?s0 = Inr s'"
      "alloc_plan s' = []"
      "used_memory (g_memory_stats s') = of_nat (2 ^ 34 - 1) * 2 ^ 30"
    using u by auto
  have v: "(of_nat (2 ^ 34 - 1) * 2 ^ 30 :: size_t) = 2 ^ 64 - 2 ^ 30"
    by simp
  have w: "(of_nat (2 ^ 34 - 1) * 2 ^ 30 + 2 ^ 30 :: size_t) = 0"
    by simp
  have first: "used_after (cycle_calls (2 ^ 34 - 1) (2 ^ 30) 64 1) = Inr (2 ^ 64 - 2 ^ 30)"
    using s'(1,3) v by (simp add: used_after_def)
  obtain q s2 where al: "agi_aligned_alloc (2 ^ 30) 64 s' = (q, s2)"
    by (cases "agi_aligned_alloc (2 ^ 30) 64 s'")
  with s'(2) obtain b where q: "q = Some b"
    by (auto simp: agi_aligned_alloc_def libc_aligned_alloc_def new_block_def next_alloc_ok_def
        Let_def split: if_splits)
  from alloc_ok_stats(2) [OF al [unfolded q]] s'(3) w
  have "used_memory (g_memory_stats s2) = 0" by simp
  then have "used_after (cycle_calls (2 ^ 34 - 1) (2 ^ 30) 64 1 @ [Alloc (2 ^ 30) 64]) = Inr 0"
    using s'(1) al by (simp add: used_after_def run_calls_append)
  with first show ?thesis by simp
qed

text \<open>
  C6 (amended). Started from the zeroed statistics, \<open>used_memory\<close> never exceeds
  \<open>peak_memory\<close> after any sequence of calls; \<open>agi_aligned_free\<close> leaves
  \<open>used_memory\<close> as it is; a successful \<open>agi_aligned_alloc\<close> adds \<open>size\<close> to
  \<open>total_memory\<close> and \<open>used_memory\<close> and 1 to \<open>allocation_count\<close>, in \<open>size_t\<close>
  arithmetic, and sets \<open>peak_memory\<close> to the new \<open>used_memory\<close> when that exceeds the
  old peak; it does not lower \<open>used_memory\<close> as long as the sum does not pass
  \<open>2^64 - 1\<close>; a failed allocation leaves the statistics as they are.
\<close>

theorem C6_tracker_counters:
  "(run_calls cs (initial_state ap rp) = Inr s \<longrightarrow>
      used_memory (g_memory_stats s) \<le> peak_memory (g_memory_stats s))
   \<and> (agi_aligned_free p t = Inr (rc, t') \<longrightarrow>
        used_memory (g_memory_stats t') = used_memory (g_memory_stats t))
   \<and> (agi_aligned_alloc sz al s0 = (Some a, s2) \<longrightarrow>
        total_memory (g_memory_stats s2) = total_memory (g_memory_stats s0) + sz
      \<and> used_memory (g_memory_stats s2) = used_memory (g_memory_stats s0) + sz
      \<and> allocation_count (g_memory_stats s2) = allocation_count (g_memory_stats s0) + 1
      \<and> peak_memory (g_memory_stats s2) =
          (if used_memory (g_memory_stats s0) + sz > peak_memory (g_memory_stats s0)
           then used_memory (g_memory_stats s0) + sz else peak_memory (g_memory_stats s0))
      \<and> (unat (used_memory (g_memory_stats s0)) + unat sz < 2 ^ 64 \<longrightarrow>
           used_memory (g_memory_stats s0) \<le> used_memory (g_memory_stats s2)))
   \<and> (agi_aligned_alloc sz al s0 = (None, s2) \<longrightarrow> g_memory_stats s2 = g_memory_stats s0)"
proof (intro conjI impI)
  assume "run_calls cs (initial_state ap rp) = Inr s"
  from run_calls_used_le_peak [OF this]
  show "used_memory (g_memory_stats s) \<le> peak_memory (g_memory_stats s)"
    by (simp add: initial_state_def zero_stats_def)
next
  assume "agi_aligned_free p t = Inr (rc, t')"
  from free_stats(2) [OF this]
  show "used_memory (g_memory_stats t') = used_memory (g_memory_stats t)" .
next
  assume a: "agi_aligned_alloc sz al s0 = (Some a, s2)"
  note st = alloc_ok_stats [OF a]
  show "total_memory (g_memory_stats s2) = total_memory (g_memory_stats s0) + sz"
    by (rule st(1))
  show u: "used_memory (g_memory_stats s2) = used_memory (g_memory_stats s0) + sz"
    by (rule st(2))
  show "allocation_count (g_memory_stats s2) = allocation_count (g_memory_stats s0) + 1"
    by (rule st(3))
  show "peak_memory (g_memory_stats s2) =
          (if used_memory (g_memory_stats s0) + sz > peak_memory (g_memory_stats s0)
           then used_memory (g_memory_stats s0) + sz else peak_memory (g_memory_stats s0))"
    by (rule st(5))
  assume "unat (used_memory (g_memory_stats s0)) + unat sz < 2 ^ 64"
  then show "used_memory (g_memory_stats s0) \<le> used_memory (g_memory_stats s2)"
    unfolding u by (simp add: no_olen_add_nat)
next
  assume "agi_aligned_alloc sz al s0 = (None, s2)"
  then show "g_memory_stats s2 = g_memory_stats s0" by (rule alloc_fail_stats)
qed

theorem C6_tracker_counters_witness:
  "run_calls [Alloc 8 8, Free (Some 1)] (initial_state [] []) = Inr tracker_demo_end
   \<and> used_memory (g_memory_stats tracker_demo_end) \<le> peak_memory (g_memory_stats tracker_demo_end)
   \<and> agi_aligned_alloc 8 8 (initial_state [] []) = (Some 1, tracker_demo_mid)
   \<and> used_memory (g_memory_stats (initial_state [] [])) = 0
   \<and> used_memory (g_memory_stats tracker_demo_mid) = 8
   \<and> agi_aligned_free (Some 1) tracker_demo_mid = Inr (AGI_SUCCESS, tracker_demo_end)
   \<and> used_memory (g_memory_stats tracker_demo_end) = 8
   \<and> agi_aligned_alloc 8 8 (initial_state [False] []) = (None, initial_state [] [])"
proof -
  have a: "agi_aligned_alloc 8 8 (initial_state [] []) = (Some 1, tracker_demo_mid)"
    by (simp add: agi_aligned_alloc_def libc_aligned_alloc_def new_block_def next_alloc_ok_def
        plan_step_def sizeof_double_def initial_state_def zero_stats_def tracker_demo_mid_def
        Let_def)
  have f: "agi_aligned_free (Some 1) tracker_demo_mid = Inr (AGI_SUCCESS, tracker_demo_end)"
    by (simp add: agi_aligned_free_def libc_free_def tracker_demo_mid_def tracker_demo_end_def
        Let_def fun_eq_iff)
  have n: "agi_aligned_alloc 8 8 (initial_state [False] []) = (None, initial_state [] [])"
    by (simp add: agi_aligned_alloc_def libc_aligned_alloc_def new_block_def next_alloc_ok_def
        plan_step_def initial_state_def)
  have r: "run_calls [Alloc 8 8, Free (Some 1)] (initial_state [] []) = Inr tracker_demo_end"
    using f by (simp add: a)
  note inst = C6_tracker_counters [of "[Alloc 8 8, Free (Some 1)]" "[]" "[]" tracker_demo_end
      "Some 1" tracker_demo_mid AGI_SUCCESS tracker_demo_end 8 8 "initial_state [] []" 1
      tracker_demo_mid]
  from inst r have le:
    "used_memory (g_memory_stats tracker_demo_end) \<le> peak_memory (g_memory_stats tracker_demo_end)"
    by blast
  from inst f have fr:
    "used_memory (g_memory_stats tracker_demo_end) = used_memory (g_memory_stats tracker_demo_mid)"
    by blast
  from inst a have al:
    "used_memory (g_memory_stats tracker_demo_mid)
       = used_memory (g_memory_stats (initial_state [] [])) + 8"
    by blast
  have u0: "used_memory (g_memory_stats (initial_state [] [])) = 0"
    by (simp add: initial_state_def zero_stats_def)
  from le fr al u0 a f n r show ?thesis by simp
qed

section \<open>Results: neural network engine\<close>

subsection \<open>Evaluation on the example inputs\<close>

lemmas libc_defs = libc_calloc_def libc_malloc_object_def libc_free_def libc_rand_def
  new_block_def next_alloc_ok_def plan_step_def sizeof_double_def sizeof_agi_neural_layer_t_def

lemmas create_defs = agi_create_neural_network_def layer_output_choice_def read_hidden_def
  xavier_scale_def init_weight_def free_layer_def store_def load_def

lemmas forward_defs = agi_forward_pass_def memcpy_def layer_step_def row_step_def
  accumulate_step_def bias_step_def relu_step_def

lemma demo_create:
  "agi_create_neural_network (Some demo_config) (initial_state [] demo_rand)
     = Inr (Some demo_net, demo_built)"
  by (simp add: demo_config_def demo_net_def demo_built_def demo_heap_def initial_state_def
      zero_stats_def libc_defs create_defs create_layers.simps for_loop.simps Let_def
      demo_rand_def RAND_MAX_def fun_eq_iff double_arith)

lemma demo_destroy:
  "agi_destroy_neural_network (Some demo_net) demo_built = Inr (AGI_SUCCESS, demo_destroyed)"
  by (simp add: agi_destroy_neural_network_def demo_net_def demo_built_def demo_heap_def
      demo_destroyed_def libc_defs free_layer_def for_loop.simps fun_eq_iff)

lemma demo_forward:
  "agi_forward_pass (Some demo_net) (Some 10) (Some 11) 1 demo_ready = Inr (AGI_SUCCESS, demo_after_forward)"
  by (simp add: demo_ready_def demo_after_forward_def demo_built_def demo_heap_def demo_net_def
      demo_config_def forward_defs load_def store_def sizeof_double_def for_loop.simps Let_def
      fun_eq_iff double_arith)

lemma demo_forward_again:
  "agi_forward_pass (Some demo_net) (Some 10) (Some 11) 32 demo_after_forward
     = Inr (AGI_SUCCESS, demo_after_forward)"
  by (simp add: demo_after_forward_def demo_built_def demo_heap_def demo_net_def
      demo_config_def forward_defs load_def store_def sizeof_double_def for_loop.simps Let_def
      fun_eq_iff double_arith)

subsection \<open>Construction\<close>

lemma example_config_faults:
  "agi_create_neural_network (Some example_config) (initial_state [] []) = Inl OutOfBounds"
  by (simp add: example_config_def initial_state_def zero_stats_def libc_defs create_defs
      create_layers.simps for_loop.simps Let_def)

lemma create_layers_second_read:
  "create_layers example_config 3 cap (Suc 0) cur ls s = Inl OutOfBounds"
  by (subst create_layers.simps)
    (simp add: layer_output_choice_def read_hidden_def example_config_def)

lemma create_layers_example_never:
  "create_layers example_config 3 cap 0 cur [] s \<noteq> Inr (Some ls, s')"
  by (subst create_layers.simps)
    (auto simp: create_layers_second_read Let_def split: sum.splits prod.splits if_splits)

lemma example_config_never_built:
  "agi_create_neural_network (Some example_config) s \<noteq> Inr (Some net, s')"
proof -
  have lc: "hidden_layers_count example_config + 2 = 3"
    by (simp add: example_config_def)
  show ?thesis
    by (auto simp: agi_create_neural_network_def lc Let_def create_layers_example_never
        split: prod.splits bool.splits sum.splits option.splits)
qed

lemma layer_output_choice_past_array:
  assumes "unat lc = unat (hidden_layers_count cfg) + 2"
    and "length (hidden_layer_sizes cfg) \<le> unat (hidden_layers_count cfg)"
  shows "layer_output_choice cfg lc (unat (hidden_layers_count cfg)) = Inl OutOfBounds"
proof -
  have "unat (lc - 1) = unat (hidden_layers_count cfg) + 1"
    using assms(1) by (simp add: unat_sub word_le_nat_alt)
  with assms(2) show ?thesis
    by (cases "hidden_layer_sizes cfg") (auto simp: layer_output_choice_def read_hidden_def)
qed

lemma create_layers_exact_array:
  "unat lc = unat (hidden_layers_count cfg) + 2 \<Longrightarrow>
   length (hidden_layer_sizes cfg) \<le> unat (hidden_layers_count cfg) \<Longrightarrow>
   i \<le> unat (hidden_layers_count cfg) \<Longrightarrow>
   create_layers cfg lc cap i cur ls s \<noteq> Inr (Some ls', s')"
proof (induction cfg lc cap i cur ls s rule: create_layers.induct)
  case (1 cfg lc cap i cur ls s)
  note lc = "1.prems"(1) and len = "1.prems"(2) and i = "1.prems"(3)
  from lc i have run: "i < unat lc" by simp
  show ?case
  proof (cases "i = unat (hidden_layers_count cfg)")
    case True
    with layer_output_choice_past_array [OF lc len] run show ?thesis
      by (subst create_layers.simps) simp
  next
    case False
    with i have next_i: "Suc i \<le> unat (hidden_layers_count cfg)" by simp
    show ?thesis
    proof (cases "layer_output_choice cfg lc i")
      case (Inl e)
      with run show ?thesis by (subst create_layers.simps) simp
    next
      case (Inr out)
      show ?thesis
      proof (cases "cap \<le> i")
        case True
        with run Inr show ?thesis by (subst create_layers.simps) simp
      next
        case cap: False
        obtain w s1 where w: "libc_calloc (cur * out) s = (w, s1)"
          by (cases "libc_calloc (cur * out) s")
        obtain b s2 where b: "libc_calloc out s1 = (b, s2)"
          by (cases "libc_calloc out s1")
        let ?layer = "\<lparr>weights = w, biases = b, layer_input_size = cur,
                        layer_output_size = out, is_training = True\<rparr>"
        show ?thesis
        proof (cases "w = None \<or> b = None")
          case True
          with run Inr cap w b show ?thesis
            by (subst create_layers.simps) (auto simp: Let_def split: sum.splits)
        next
          case ok: False
          then obtain wa ba where wb: "w = Some wa" "b = Some ba" by auto
          let ?init = "for_loop 0 (unat (cur * out)) (init_weight w (xavier_scale cur out)) s2"
          show ?thesis
          proof (cases ?init)
            case (Inl e)
            with run Inr cap w b wb show ?thesis
              by (subst create_layers.simps) (simp add: Let_def)
          next
            case init: (Inr s3)
            have "create_layers cfg lc cap (Suc i) out (ls @ [?layer]) s3 \<noteq> Inr (Some ls', s')"
              using "1.IH" [OF run Inr cap refl refl w [symmetric] b [symmetric] refl ok init
                  lc len next_i] .
            with run Inr cap w b wb init show ?thesis
              by (subst create_layers.simps) (simp add: Let_def)
          qed
        qed
      qed
    qed
  qed
qed

text \<open>
  The read past the array does not depend on the widths: whenever the array holds no more
  than \<open>hidden_layers_count\<close> widths, the layer loop reads
  \<open>hidden_layer_sizes[hidden_layers_count]\<close> before it is done, and the construction
  returns no network.
\<close>

lemma create_exact_array_never_built:
  assumes "unat (hidden_layers_count cfg) + 2 < 2 ^ 64"
    and "length (hidden_layer_sizes cfg) \<le> unat (hidden_layers_count cfg)"
  shows "agi_create_neural_network (Some cfg) s \<noteq> Inr (Some net, s')"
proof -
  have lc: "unat (hidden_layers_count cfg + 2) = unat (hidden_layers_count cfg) + 2"
    using assms(1) by (simp add: unat_word_ariths)
  note never = create_layers_exact_array [OF lc assms(2), of 0]
  show ?thesis
    by (auto simp: agi_create_neural_network_def Let_def never
        split: prod.splits bool.splits sum.splits option.splits)
qed

text \<open>
  C3 (code defect). The claim asks the construction from
  \<open>{input_size = 3, hidden_layer_sizes = [4], output_size = 2}\<close> to succeed with the layers
  \<open>3 \<rightarrow> 4\<close>, \<open>4 \<rightarrow> 4\<close>, \<open>4 \<rightarrow> 2\<close>. For layer 1, which is not the last of the three
  layers, the loop reads \<open>hidden_layer_sizes[1]\<close>, one element past the end of the array of
  one width: with every allocation succeeding the run ends in this out-of-bounds read, and
  from no state does the construction return a network.
\<close>

theorem C3_example_reads_past_hidden_sizes:
  "agi_create_neural_network (Some example_config) (initial_state [] []) = Inl OutOfBounds
   \<and> (\<forall>s net s'. agi_create_neural_network (Some example_config) s \<noteq> Inr (Some net, s'))"
  using example_config_faults example_config_never_built by blast

lemma padded_config_scratch:
  "scratch_sizes (agi_create_neural_network (Some padded_config) (initial_state [] [])) = Some (3, 2, 2)"
  by (simp add: scratch_sizes_def padded_config_def example_config_def initial_state_def zero_stats_def libc_defs create_defs
      create_layers.simps for_loop.simps Let_def)

lemma padded_config_shapes:
  "layer_shapes (agi_create_neural_network (Some padded_config) (initial_state [] [])) = Some [(3, 4), (4, 4), (4, 2)]"
  by (simp add: layer_shapes_def padded_config_def example_config_def initial_state_def zero_stats_def libc_defs create_defs
      create_layers.simps for_loop.simps Let_def)

lemma padded_config_width: "largest_width padded_config = 4"
  by (simp add: largest_width_def padded_config_def example_config_def)

lemma padded_config_forward: "forward_after_create padded_config = Inl OutOfBounds"
  by (simp add: forward_after_create_def padded_config_def example_config_def initial_state_def zero_stats_def libc_defs create_defs
      create_layers.simps for_loop.simps Let_def forward_defs)

lemma libc_calloc_cases:
  assumes "libc_calloc k s = (p, s')"
  shows "(p = None \<and> heap s' = heap s \<and> next_addr s' = next_addr s)
       \<or> (p = Some (next_addr s) \<and> heap s' = (heap s)(next_addr s \<mapsto> replicate (unat k) 0)
           \<and> next_addr s' = Suc (next_addr s))"
  using assms by (auto simp: libc_calloc_def new_block_def plan_step_def split: if_splits)

text \<open>
  In every network that the constructor returns, the input buffer holds \<open>input_size\<close>
  zeros and the output and gradient buffers hold \<open>output_size\<close> zeros each (unless the
  unchecked \<open>calloc\<close> returned \<open>NULL\<close>).
\<close>

lemma create_scratch_buffers:
  assumes "agi_create_neural_network (Some cfg) s = Inr (Some net, s')"
  shows "(\<forall>a. input_buffer net = Some a \<longrightarrow> heap s' a = Some (replicate (unat (input_size cfg)) 0))
       \<and> (\<forall>a. output_buffer net = Some a \<longrightarrow> heap s' a = Some (replicate (unat (output_size cfg)) 0))
       \<and> (\<forall>a. gradient_buffer net = Some a \<longrightarrow>
             heap s' a = Some (replicate (unat (output_size cfg)) 0))"
proof -
  obtain ok1 s1 where m1: "libc_malloc_object s = (ok1, s1)"
    by (cases "libc_malloc_object s")
  obtain ok2 s2 where m2: "libc_malloc_object s1 = (ok2, s2)"
    by (cases "libc_malloc_object s1")
  let ?lc = "hidden_layers_count cfg + 2"
  let ?cl = "create_layers cfg ?lc
               (unat (?lc * sizeof_agi_neural_layer_t) div unat sizeof_agi_neural_layer_t)
               0 (input_size cfg) [] s2"
  from assms m1 m2 have ok: "ok1" "ok2"
    by (auto simp: agi_create_neural_network_def Let_def split: bool.splits)
  with assms m1 m2 obtain ls s3 where cl: "?cl = Inr (Some ls, s3)"
    by (cases ?cl) (auto simp: agi_create_neural_network_def Let_def split: option.splits)
  obtain ib s4 where c1: "libc_calloc (input_size cfg) s3 = (ib, s4)"
    by (cases "libc_calloc (input_size cfg) s3")
  obtain ob s5 where c2: "libc_calloc (output_size cfg) s4 = (ob, s5)"
    by (cases "libc_calloc (output_size cfg) s4")
  obtain gb s6 where c3: "libc_calloc (output_size cfg) s5 = (gb, s6)"
    by (cases "libc_calloc (output_size cfg) s5")
  from assms m1 m2 ok cl c1 c2 c3 have net: "input_buffer net = ib" "output_buffer net = ob"
    "gradient_buffer net = gb" and s': "s' = s6"
    by (auto simp: agi_create_neural_network_def Let_def)
  from libc_calloc_cases [OF c1] libc_calloc_cases [OF c2] libc_calloc_cases [OF c3]
  show ?thesis unfolding net s' by auto
qed

text \<open>
  C2 (code defect). The claim asks for three scratch buffers as long as the largest width
  of the pipeline. The constructor gives the input buffer \<open>input_size\<close> elements and the
  output and gradient buffers \<open>output_size\<close> elements each. For the layers \<open>3 \<rightarrow> 4\<close>,
  \<open>4 \<rightarrow> 4\<close>, \<open>4 \<rightarrow> 2\<close> built from \<open>padded_config\<close> the largest width is 4 and the
  buffers hold 3, 2 and 2 doubles; the forward pass, which writes the four outputs of
  layer 0 into the output buffer, runs past its end.
\<close>

theorem C2_scratch_buffers_follow_input_output_width:
  "scratch_sizes (agi_create_neural_network (Some padded_config) (initial_state [] [])) = Some (3, 2, 2)
   \<and> layer_shapes (agi_create_neural_network (Some padded_config) (initial_state [] []))
       = Some [(3, 4), (4, 4), (4, 2)]
   \<and> largest_width padded_config = 4
   \<and> forward_after_create padded_config = Inl OutOfBounds"
  using padded_config_scratch padded_config_shapes padded_config_width padded_config_forward
  by blast

subsection \<open>Loops and heap frames\<close>

lemma for_loop_inv:
  assumes "for_loop i n body s = Inr s'" and "P s"
    and "\<And>j t t'. j < n \<Longrightarrow> P t \<Longrightarrow> body j t = Inr t' \<Longrightarrow> P t'"
  shows "P s'"
  using assms
proof (induction i n body s rule: for_loop.induct)
  case (1 i n body s)
  show ?case
  proof (cases "i < n")
    case False
    with "1.prems"(1,2) show ?thesis
      by (subst (asm) for_loop.simps) simp
  next
    case True
    from "1.prems"(1) True obtain t where t: "body i s = Inr t"
      and r: "for_loop (Suc i) n body t = Inr s'"
      by (subst (asm) for_loop.simps) (auto split: sum.splits)
    have "P t" using "1.prems"(3) [OF True "1.prems"(2) t] .
    from "1.IH" [OF True t r this "1.prems"(3)] show ?thesis .
  qed
qed

lemma for_loop_total:
  assumes "P s"
    and "\<And>j t. j < n \<Longrightarrow> P t \<Longrightarrow> \<exists>t'. body j t = Inr t' \<and> P t'"
  shows "\<exists>s'. for_loop i n body s = Inr s' \<and> P s'"
  using assms
proof (induction i n body s rule: for_loop.induct)
  case (1 i n body s)
  show ?case
  proof (cases "i < n")
    case False
    with "1.prems"(1) show ?thesis
      by (subst for_loop.simps) simp
  next
    case True
    from "1.prems"(2) [OF True "1.prems"(1)]
    obtain t where t: "body i s = Inr t" "P t" by auto
    from "1.IH" [OF True t(1) t(2) "1.prems"(2)]
    obtain s' where "for_loop (Suc i) n body t = Inr s'" "P s'" by auto
    with True t(1) show ?thesis
      by (subst for_loop.simps) simp
  qed
qed

lemma for_loop_fixed:
  assumes "\<And>j. j < n \<Longrightarrow> body j s = Inr s"
  shows "for_loop i n body s = Inr s"
  using for_loop_total [of "\<lambda>t. t = s" s n body i] assms by auto

lemma writes_only_refl: "writes_only P h h"
  by (simp add: writes_only_def)

lemma writes_only_trans:
  "writes_only P h h' \<Longrightarrow> writes_only P h' h'' \<Longrightarrow> writes_only P h h''"
  by (simp add: writes_only_def)

lemma writes_only_mono: "writes_only P h h' \<Longrightarrow> P \<subseteq> Q \<Longrightarrow> writes_only Q h h'"
  by (auto simp: writes_only_def)

lemma store_writes_only: "store h p i v = Inr h' \<Longrightarrow> writes_only {p} h h'"
  by (auto simp: store_def writes_only_def split: option.splits if_splits)

lemma memcpy_writes_only: "memcpy h d sr nb = Inr h' \<Longrightarrow> writes_only {d} h h'"
  by (auto simp: memcpy_def writes_only_def Let_def split: option.splits if_splits)

lemma accumulate_step_writes: "accumulate_step l cin cout i j h = Inr h' \<Longrightarrow> writes_only {cout} h h'"
  by (auto simp: accumulate_step_def split: sum.splits dest: store_writes_only)

lemma for_loop_writes:
  assumes "for_loop i n body h = Inr h'"
    and "\<And>j t t'. body j t = Inr t' \<Longrightarrow> writes_only P t t'"
  shows "writes_only P h h'"
  by (rule for_loop_inv [OF assms(1), of "writes_only P h"])
    (auto intro: writes_only_refl writes_only_trans assms(2))

lemma row_step_writes:
  assumes "row_step l cin cout i h = Inr h'"
  shows "writes_only {cout} h h'"
proof -
  from assms obtain h1 where a: "store h cout i 0 = Inr h1"
    and b: "for_loop 0 (unat (layer_input_size l)) (accumulate_step l cin cout i) h1 = Inr h'"
    by (cases "store h cout i 0") (simp_all add: row_step_def)
  have "writes_only {cout} h1 h'"
    using b by (rule for_loop_writes) (rule accumulate_step_writes)
  with store_writes_only [OF a] show ?thesis by (rule writes_only_trans)
qed

lemma bias_step_writes: "bias_step l cout i h = Inr h' \<Longrightarrow> writes_only {cout} h h'"
  by (auto simp: bias_step_def split: sum.splits dest: store_writes_only)

lemma relu_step_writes: "relu_step cout i h = Inr h' \<Longrightarrow> writes_only {cout} h h'"
  by (auto simp: relu_step_def split: sum.splits dest: store_writes_only)

lemma layer_step_writes:
  assumes "layer_step net k (h, cin, cout) = Inr (h', cin', cout')"
  shows "writes_only {cout} h h' \<and> cin' = cout \<and> cout' = cin"
proof -
  let ?l = "layers net ! k"
  let ?rows = "unat (layer_output_size ?l)"
  from assms have eq1:
    "(case for_loop 0 ?rows (row_step ?l cin cout) h of
        Inl e \<Rightarrow> Inl e
      | Inr h1 \<Rightarrow>
          (case for_loop 0 ?rows (bias_step ?l cout) h1 of
             Inl e \<Rightarrow> Inl e
           | Inr h2 \<Rightarrow>
               (case for_loop 0 ?rows (relu_step cout) h2 of
                  Inl e \<Rightarrow> Inl e
                | Inr h3 \<Rightarrow> Inr (h3, cout, cin)))) = Inr (h', cin', cout')"
    by (simp add: layer_step_def Let_def split: if_splits)
  then obtain h1 where a: "for_loop 0 ?rows (row_step ?l cin cout) h = Inr h1"
    and eq2: "(case for_loop 0 ?rows (bias_step ?l cout) h1 of
             Inl e \<Rightarrow> Inl e
           | Inr h2 \<Rightarrow>
               (case for_loop 0 ?rows (relu_step cout) h2 of
                  Inl e \<Rightarrow> Inl e
                | Inr h3 \<Rightarrow> Inr (h3, cout, cin))) = Inr (h', cin', cout')"
    by (cases "for_loop 0 ?rows (row_step ?l cin cout) h") simp_all
  then obtain h2 where b: "for_loop 0 ?rows (bias_step ?l cout) h1 = Inr h2"
    and eq3: "(case for_loop 0 ?rows (relu_step cout) h2 of
                  Inl e \<Rightarrow> Inl e
                | Inr h3 \<Rightarrow> Inr (h3, cout, cin)) = Inr (h', cin', cout')"
    by (cases "for_loop 0 ?rows (bias_step ?l cout) h1") simp_all
  then have c: "for_loop 0 ?rows (relu_step cout) h2 = Inr h'" and d: "cin' = cout" "cout' = cin"
    by (cases "for_loop 0 ?rows (relu_step cout) h2"; simp)+
  have "writes_only {cout} h h1"
    using a by (rule for_loop_writes) (rule row_step_writes)
  moreover have "writes_only {cout} h1 h2"
    using b by (rule for_loop_writes) (rule bias_step_writes)
  moreover have "writes_only {cout} h2 h'"
    using c by (rule for_loop_writes) (rule relu_step_writes)
  ultimately show ?thesis using d by (blast intro: writes_only_trans)
qed

lemma layers_loop_writes:
  assumes "for_loop i n (layer_step net) (h, ib, ob) = Inr (h', cin, cout)"
  shows "writes_only {ib, ob} h h' \<and> {cin, cout} = {ib, ob}"
proof -
  let ?P = "\<lambda>st. case st of (t, ci, co) \<Rightarrow> writes_only {ib, ob} h t \<and> {ci, co} = {ib, ob}"
  have "?P (h', cin, cout)"
  proof (rule for_loop_inv [OF assms, of ?P])
    show "?P (h, ib, ob)" by (simp add: writes_only_refl)
  next
    fix j t t' assume "j < n" and p: "?P t" and st: "layer_step net j t = Inr t'"
    obtain t1 ci co where t: "t = (t1, ci, co)" by (cases t)
    obtain t2 ci' co' where t': "t' = (t2, ci', co')" by (cases t')
    from layer_step_writes [OF st [unfolded t t']]
    have w: "writes_only {co} t1 t2" and sw: "ci' = co" "co' = ci" by auto
    from p t have p1: "writes_only {ib, ob} h t1" and p2: "{ci, co} = {ib, ob}" by auto
    from p2 have "{co} \<subseteq> {ib, ob}" by auto
    from writes_only_trans [OF p1 writes_only_mono [OF w this]] p2 sw
    show "?P t'" unfolding t' by auto
  qed
  then show ?thesis by simp
qed

lemma bytes_to_doubles:
  "unat (n :: size_t) < 2 ^ 61 \<Longrightarrow> unat (n * sizeof_double) div unat sizeof_double = unat n"
  by (simp add: sizeof_double_def unat_word_ariths)


lemma load_total:
  "map_option length (t a) = Some m \<Longrightarrow> i < m \<Longrightarrow> \<exists>v. load t (Some a) i = Inr v"
  by (auto simp: load_def split: option.splits)

lemma store_total:
  "map_option length (t a) = Some m \<Longrightarrow> i < m \<Longrightarrow> \<exists>t'. store t (Some a) i v = Inr t'"
  by (auto simp: store_def split: option.splits)

lemma load_Some: "t a = Some xs \<Longrightarrow> i < length xs \<Longrightarrow> load t (Some a) i = Inr (xs ! i)"
  by (simp add: load_def)

lemma forward_pass_parts:
  assumes "agi_forward_pass (Some net) (Some inp) (Some outp) b s = Inr (rc, s1)"
  obtains h1 h2 cin cout h3 where
    "memcpy (heap s) (input_buffer net) (Some inp) (input_size (config net) * sizeof_double) = Inr h1"
    "for_loop 0 (unat (layer_count net)) (layer_step net) (h1, input_buffer net, output_buffer net)
       = Inr (h2, cin, cout)"
    "memcpy h2 (Some outp) cin (output_size (config net) * sizeof_double) = Inr h3"
    "s1 = s\<lparr>heap := h3\<rparr>" "rc = AGI_SUCCESS"
proof -
  let ?m1 = "memcpy (heap s) (input_buffer net) (Some inp) (input_size (config net) * sizeof_double)"
  from assms obtain h1 where m1: "?m1 = Inr h1"
    by (cases ?m1) (simp_all add: agi_forward_pass_def)
  let ?lp = "for_loop 0 (unat (layer_count net)) (layer_step net)
               (h1, input_buffer net, output_buffer net)"
  from assms m1 obtain h2 cin cout where lp: "?lp = Inr (h2, cin, cout)"
    by (cases ?lp) (auto simp: agi_forward_pass_def)
  let ?m2 = "memcpy h2 (Some outp) cin (output_size (config net) * sizeof_double)"
  from assms m1 lp obtain h3 where m2: "?m2 = Inr h3"
    by (cases ?m2) (simp_all add: agi_forward_pass_def)
  from assms m1 lp m2 have "s1 = s\<lparr>heap := h3\<rparr>" "rc = AGI_SUCCESS"
    by (simp_all add: agi_forward_pass_def)
  with m1 lp m2 show ?thesis by (rule that)
qed

lemma memcpy_parts:
  assumes "memcpy h (Some d) src (k * sizeof_double) = Inr h'" and "unat k < 2 ^ 61"
  obtains c cv dv where "src = Some c" "h c = Some cv" "h d = Some dv"
    "unat k \<le> length cv" "unat k \<le> length dv" "h' = h(d \<mapsto> take (unat k) cv @ drop (unat k) dv)"
  using assms(1) bytes_to_doubles [OF assms(2)]
  by (auto simp: memcpy_def Let_def split: option.splits if_splits)

lemma memcpy_run:
  assumes "h c = Some cv" "h d = Some dv" "unat k \<le> length cv" "unat k \<le> length dv"
    and "unat k < 2 ^ 61"
  shows "memcpy h (Some d) (Some c) (k * sizeof_double)
           = Inr (h(d \<mapsto> take (unat k) cv @ drop (unat k) dv))"
  using assms(1-4) bytes_to_doubles [OF assms(5)]
  by (simp add: memcpy_def Let_def)

subsection \<open>The engine and the allocator tracker\<close>

lemma libc_calloc_stats: "libc_calloc k s = (p, s') \<Longrightarrow> g_memory_stats s' = g_memory_stats s"
  by (auto simp: libc_calloc_def new_block_def plan_step_def split: if_splits)

lemma libc_malloc_object_stats:
  "libc_malloc_object s = (ok, s') \<Longrightarrow> g_memory_stats s' = g_memory_stats s"
  by (auto simp: libc_malloc_object_def plan_step_def)

lemma libc_free_stats: "libc_free p s = Inr s' \<Longrightarrow> g_memory_stats s' = g_memory_stats s"
  by (auto simp: libc_free_def split: option.splits)

lemma init_weight_stats:
  "init_weight w sc j s = Inr s' \<Longrightarrow> g_memory_stats s' = g_memory_stats s"
  by (auto simp: init_weight_def libc_rand_def split: option.splits sum.splits list.splits)

lemma free_layer_stats:
  "free_layer ls j s = Inr s' \<Longrightarrow> g_memory_stats s' = g_memory_stats s"
  by (auto simp: free_layer_def split: if_splits sum.splits dest!: libc_free_stats)

lemma for_loop_stats:
  assumes "for_loop i n body s = Inr s'"
    and "\<And>j t t'. body j t = Inr t' \<Longrightarrow> g_memory_stats t' = g_memory_stats t"
  shows "g_memory_stats s' = g_memory_stats s"
  by (rule for_loop_inv [OF assms(1), of "\<lambda>t. g_memory_stats t = g_memory_stats s"])
    (auto dest: assms(2))

lemma create_layers_stats:
  "create_layers cfg lc cap i cur ls s = Inr (r, s') \<Longrightarrow> g_memory_stats s' = g_memory_stats s"
proof (induction cfg lc cap i cur ls s rule: create_layers.induct)
  case (1 cfg lc cap i cur ls s)
  show ?case
  proof (cases "i < unat lc")
    case False
    with "1.prems" show ?thesis
      by (subst (asm) create_layers.simps) simp
  next
    case True
    from "1.prems" True obtain out where out: "layer_output_choice cfg lc i = Inr out"
      and cap: "\<not> cap \<le> i"
      by (subst (asm) create_layers.simps) (auto split: sum.splits if_splits)
    obtain w s1 where w: "libc_calloc (cur * out) s = (w, s1)"
      by (cases "libc_calloc (cur * out) s")
    obtain b s2 where b: "libc_calloc out s1 = (b, s2)"
      by (cases "libc_calloc out s1")
    let ?layer = "\<lparr>weights = w, biases = b, layer_input_size = cur, layer_output_size = out,
                    is_training = True\<rparr>"
    have st2: "g_memory_stats s2 = g_memory_stats s"
      using libc_calloc_stats [OF w] libc_calloc_stats [OF b] by simp
    show ?thesis
    proof (cases "w = None \<or> b = None")
      case fail: True
      with "1.prems" True out cap w b obtain s3 where
        "for_loop 0 (Suc i) (free_layer (ls @ [?layer])) s2 = Inr s3" "s' = s3"
        by (subst (asm) create_layers.simps) (auto simp: Let_def split: sum.splits)
      with for_loop_stats [OF this(1) free_layer_stats] st2 show ?thesis by simp
    next
      case ok: False
      with "1.prems" True out cap w b obtain s3 where
        init: "for_loop 0 (unat (cur * out)) (init_weight w (xavier_scale cur out)) s2 = Inr s3"
        and rest: "create_layers cfg lc cap (Suc i) out (ls @ [?layer]) s3 = Inr (r, s')"
        by (subst (asm) create_layers.simps) (auto simp: Let_def split: sum.splits)
      have "g_memory_stats s' = g_memory_stats s3"
        using "1.IH" [OF True out cap refl refl w [symmetric] b [symmetric] refl ok init rest] .
      with for_loop_stats [OF init init_weight_stats] st2 show ?thesis by simp
    qed
  qed
qed


lemma create_stats:
  assumes "agi_create_neural_network c s = Inr (r, s')"
  shows "g_memory_stats s' = g_memory_stats s"
proof (cases c)
  case None
  with assms show ?thesis by (simp add: agi_create_neural_network_def)
next
  case (Some cfg)
  obtain ok1 s1 where m1: "libc_malloc_object s = (ok1, s1)"
    by (cases "libc_malloc_object s")
  obtain ok2 s2 where m2: "libc_malloc_object s1 = (ok2, s2)"
    by (cases "libc_malloc_object s1")
  note st2 = libc_malloc_object_stats [OF m1] libc_malloc_object_stats [OF m2]
  let ?lc = "hidden_layers_count cfg + 2"
  let ?cl = "create_layers cfg ?lc
               (unat (?lc * sizeof_agi_neural_layer_t) div unat sizeof_agi_neural_layer_t)
               0 (input_size cfg) [] s2"
  show ?thesis
  proof (cases "ok1 \<and> ok2")
    case False
    with assms Some m1 m2 st2 show ?thesis
      by (auto simp: agi_create_neural_network_def Let_def split: bool.splits)
  next
    case True
    with assms Some m1 m2 obtain r3 s3 where cl: "?cl = Inr (r3, s3)"
      by (cases ?cl) (auto simp: agi_create_neural_network_def Let_def)
    note st3 = create_layers_stats [OF cl]
    show ?thesis
    proof (cases r3)
      case None
      with assms Some m1 m2 True cl st2 st3 show ?thesis
        by (simp add: agi_create_neural_network_def Let_def)
    next
      case ls: (Some ls)
      obtain ib s4 where c1: "libc_calloc (input_size cfg) s3 = (ib, s4)"
        by (cases "libc_calloc (input_size cfg) s3")
      obtain ob s5 where c2: "libc_calloc (output_size cfg) s4 = (ob, s5)"
        by (cases "libc_calloc (output_size cfg) s4")
      obtain gb s6 where c3: "libc_calloc (output_size cfg) s5 = (gb, s6)"
        by (cases "libc_calloc (output_size cfg) s5")
      from assms Some m1 m2 True cl ls c1 c2 c3 have "s' = s6"
        by (simp add: agi_create_neural_network_def Let_def)
      with libc_calloc_stats [OF c1] libc_calloc_stats [OF c2] libc_calloc_stats [OF c3] st2 st3
      show ?thesis by simp
    qed
  qed
qed

lemma destroy_stats:
  assumes "agi_destroy_neural_network n s = Inr (rc, s')"
  shows "g_memory_stats s' = g_memory_stats s"
proof (cases n)
  case None
  with assms show ?thesis by (simp add: agi_destroy_neural_network_def)
next
  case (Some net)
  let ?lp = "for_loop 0 (unat (layer_count net)) (free_layer (layers net)) s"
  from assms Some obtain s1 where lp: "?lp = Inr s1"
    by (cases ?lp) (simp_all add: agi_destroy_neural_network_def)
  from assms Some lp obtain s2 where f1: "libc_free (input_buffer net) s1 = Inr s2"
    by (cases "libc_free (input_buffer net) s1") (simp_all add: agi_destroy_neural_network_def)
  from assms Some lp f1 obtain s3 where f2: "libc_free (output_buffer net) s2 = Inr s3"
    by (cases "libc_free (output_buffer net) s2") (simp_all add: agi_destroy_neural_network_def)
  from assms Some lp f1 f2 obtain s4 where f3: "libc_free (gradient_buffer net) s3 = Inr s4"
    by (cases "libc_free (gradient_buffer net) s3") (simp_all add: agi_destroy_neural_network_def)
  from assms Some lp f1 f2 f3 have "s' = s4"
    by (simp add: agi_destroy_neural_network_def)
  with for_loop_stats [OF lp free_layer_stats] libc_free_stats [OF f1] libc_free_stats [OF f2]
    libc_free_stats [OF f3]
  show ?thesis by simp
qed

text \<open>
  C5 (amended). The constructor takes every buffer from \<open>calloc\<close> and the destructor
  releases them with \<open>free\<close>; neither goes through the allocator tracker. Whatever
  \<open>agi_create_neural_network\<close> and \<open>agi_destroy_neural_network\<close> return, they leave
  \<open>g_memory_stats\<close>, and with it \<open>allocation_count\<close> and \<open>deallocation_count\<close>, as it
  was.
\<close>

theorem C5_engine_bypasses_tracker:
  "(agi_create_neural_network c s = Inr (r, s') \<longrightarrow> g_memory_stats s' = g_memory_stats s)
   \<and> (agi_destroy_neural_network n t = Inr (rc, t') \<longrightarrow> g_memory_stats t' = g_memory_stats t)"
  using create_stats destroy_stats by blast

theorem C5_engine_bypasses_tracker_witness:
  "agi_create_neural_network (Some demo_config) (initial_state [] demo_rand)
     = Inr (Some demo_net, demo_built)
   \<and> g_memory_stats demo_built = g_memory_stats (initial_state [] demo_rand)
   \<and> agi_destroy_neural_network (Some demo_net) demo_built = Inr (AGI_SUCCESS, demo_destroyed)
   \<and> g_memory_stats demo_destroyed = g_memory_stats demo_built"
  using C5_engine_bypasses_tracker [of "Some demo_config" "initial_state [] demo_rand"
      "Some demo_net" demo_built "Some demo_net" demo_built AGI_SUCCESS demo_destroyed]
    demo_create demo_destroy
  by simp

text \<open>
  C5 as stated fails: the construction from \<open>demo_config\<close> succeeds and
  \<open>allocation_count\<close> is 0 before and after it; the destruction that follows succeeds and
  \<open>deallocation_count\<close> is 0 before and after it.
\<close>

theorem C5_allocation_count_unchanged:
  "agi_create_neural_network (Some demo_config) (initial_state [] demo_rand)
     = Inr (Some demo_net, demo_built)
   \<and> allocation_count (g_memory_stats (initial_state [] demo_rand)) = 0
   \<and> allocation_count (g_memory_stats demo_built) = 0
   \<and> agi_destroy_neural_network (Some demo_net) demo_built = Inr (AGI_SUCCESS, demo_destroyed)
   \<and> deallocation_count (g_memory_stats demo_built) = 0
   \<and> deallocation_count (g_memory_stats demo_destroyed) = 0"
  using demo_create demo_destroy
  by (simp add: initial_state_def demo_built_def demo_destroyed_def zero_stats_def)

subsection \<open>Training on the forward output\<close>

lemma loss_loop_value:
  assumes "h tp = Some tv" "h ob = Some ov" "n \<le> length tv" "n \<le> length ov"
  shows "i \<le> n \<Longrightarrow>
         for_loop i n (loss_step h (Some tp) (Some ob)) acc
           = Inr (foldl (\<lambda>acc j. acc + (tv ! j - ov ! j) * (tv ! j - ov ! j)) acc [i..<n])"
proof (induction "n - i" arbitrary: i acc)
  case 0
  then show ?case by (subst for_loop.simps) simp
next
  case (Suc k)
  then have i: "i < n" by simp
  have step: "loss_step h (Some tp) (Some ob) i acc
                = Inr (acc + (tv ! i - ov ! i) * (tv ! i - ov ! i))"
    using assms i by (simp add: loss_step_def load_def Let_def)
  have u: "[i..<n] = i # [Suc i..<n]"
    using i by (rule upt_conv_Cons)
  have "k = n - Suc i" using Suc.hyps(2) by simp
  from Suc.hyps(1) [OF this, of "acc + (tv ! i - ov ! i) * (tv ! i - ov ! i)"] i
  have "for_loop (Suc i) n (loss_step h (Some tp) (Some ob))
          (acc + (tv ! i - ov ! i) * (tv ! i - ov ! i))
        = Inr (foldl (\<lambda>acc j. acc + (tv ! j - ov ! j) * (tv ! j - ov ! j))
                 (acc + (tv ! i - ov ! i) * (tv ! i - ov ! i)) [Suc i..<n])"
    by simp
  with i step show ?case
    by (subst for_loop.simps) (simp add: u)
qed

lemma squared_error_sum_cong:
  "(\<And>j. j < n \<Longrightarrow> ov ! j = ov' ! j) \<Longrightarrow> squared_error_sum tv ov n = squared_error_sum tv ov' n"
  unfolding squared_error_sum_def by (rule foldl_cong) simp_all

lemma squared_error_sum_zero:
  assumes "\<And>j. j < n \<Longrightarrow> tv ! j = ov ! j \<and> is_finite (ov ! j)"
  shows "squared_error_sum tv ov n = 0"
proof -
  have "m \<le> n \<Longrightarrow> squared_error_sum tv ov m = 0" for m
  proof (induction m)
    case 0
    show ?case by (simp add: squared_error_sum_def)
  next
    case (Suc m)
    then have prev: "squared_error_sum tv ov m = 0" and m: "m < n" by simp_all
    from assms [OF m] have "(0::double) + (tv ! m - ov ! m) * (tv ! m - ov ! m) = 0"
      by (simp add: finite_self_difference)
    with prev show ?case
      by (simp add: squared_error_sum_def)
  qed
  then show ?thesis by simp
qed

text \<open>
  What \<open>agi_train_batch\<close> returns: the mean over the output width of the squared
  differences between the target and the output of its own forward pass, which is the
  output that a forward pass into a caller's buffer leaves there.
\<close>

lemma train_batch_mse:
  fixes net :: agi_neural_network_t
  defines "n \<equiv> unat (output_size (config net))"
  assumes fwd: "agi_forward_pass (Some net) (Some inp) (Some outp) b s = Inr (AGI_SUCCESS, s1)"
    and out1: "heap s1 outp = Some ov1"
    and tgt: "heap s tp = Some tv" "n \<le> length tv"
    and sep: "Some tp \<noteq> input_buffer net" "Some tp \<noteq> output_buffer net"
    and ob: "output_buffer net = Some ob" "heap s ob = Some obv" "n \<le> length obv"
    and gb: "gradient_buffer net = None \<or>
             (\<exists>g gv. gradient_buffer net = Some g \<and> heap s g = Some gv \<and> n \<le> length gv)"
    and width: "n < 2 ^ 61"
  shows "\<exists>s2. agi_train_batch (Some net) (Some inp) (Some tp) b' s
               = Inr (mean_squared_error tv ov1 (output_size (config net)), s2)"
proof -
  let ?nb_in = "input_size (config net) * sizeof_double"
  let ?nb_out = "output_size (config net) * sizeof_double"
  let ?ib = "input_buffer net"
  from fwd obtain h1 h2 cin cout h3 where
    m1: "memcpy (heap s) ?ib (Some inp) ?nb_in = Inr h1"
    and lp: "for_loop 0 (unat (layer_count net)) (layer_step net) (h1, ?ib, output_buffer net)
               = Inr (h2, cin, cout)"
    and m2: "memcpy h2 (Some outp) cin ?nb_out = Inr h3"
    and s1: "s1 = s\<lparr>heap := h3\<rparr>"
    by (rule forward_pass_parts)
  from width have w61: "unat (output_size (config net)) < 2 ^ 61" by (simp add: n_def)
  from m2 w61 obtain c cv ov2 where c: "cin = Some c" "h2 c = Some cv" "h2 outp = Some ov2"
    "n \<le> length cv" "h3 = h2(outp \<mapsto> take n cv @ drop n ov2)"
    unfolding n_def by (rule memcpy_parts)
  from out1 s1 c(5) have ov1: "ov1 = take n cv @ drop n ov2" by simp
  have w1: "writes_only {?ib} (heap s) h1" by (rule memcpy_writes_only [OF m1])
  from layers_loop_writes [OF lp] have w2: "writes_only {?ib, output_buffer net} h1 h2" by simp
  from w1 w2 have shape2: "\<And>a. map_option length (h2 a) = map_option length (heap s a)"
    by (simp add: writes_only_def)
  from shape2 [of ob] ob(2) obtain obv2 where obv2: "h2 ob = Some obv2" "length obv2 = length obv"
    by (cases "h2 ob") auto
  let ?h3 = "h2(ob \<mapsto> take n cv @ drop n obv2)"
  let ?s1 = "s\<lparr>heap := ?h3\<rparr>"
  have m2': "memcpy h2 (Some ob) cin ?nb_out = Inr ?h3"
    unfolding c(1) n_def
    using c(2) obv2 c(4) ob(3) w61 by (intro memcpy_run) (simp_all add: n_def)
  have fwd': "agi_forward_pass (Some net) (Some inp) (output_buffer net) b' s = Inr (AGI_SUCCESS, ?s1)"
    using m1 lp m2' by (simp add: agi_forward_pass_def ob(1))
  have shape3: "\<And>a. map_option length (?h3 a) = map_option length (heap s a)"
    using shape2 obv2 c(4) ob(2,3) by auto
  have tp_ob: "tp \<noteq> ob" using sep(2) ob(1) by auto
  have "h2 tp = h1 tp" using w2 sep by (simp add: writes_only_def)
  also have "h1 tp = heap s tp" using w1 sep(1) by (simp add: writes_only_def)
  finally have tgt3: "?h3 tp = Some tv" using tp_ob tgt(1) by simp
  have "for_loop 0 n (loss_step ?h3 (Some tp) (Some ob)) 0
          = Inr (squared_error_sum tv (take n cv @ drop n obv2) n)"
    unfolding squared_error_sum_def
    using tgt3 tgt(2) c(4) by (intro loss_loop_value) simp_all
  moreover have "squared_error_sum tv (take n cv @ drop n obv2) n = squared_error_sum tv ov1 n"
    using c(4) by (intro squared_error_sum_cong) (simp add: ov1 nth_append)
  ultimately have loss: "for_loop 0 n (loss_step ?h3 (Some tp) (Some ob)) 0
                           = Inr (squared_error_sum tv ov1 n)"
    by simp
  have bwd: "\<exists>rc s2. agi_backward_pass (Some net) (Some ob) (Some tp) (gradient_buffer net) b' ?s1
               = Inr (rc, s2)"
  proof (cases "gradient_buffer net")
    case None
    then show ?thesis by (simp add: agi_backward_pass_def)
  next
    case (Some g)
    with gb obtain gv where gv: "heap s g = Some gv" "n \<le> length gv" by auto
    let ?P = "\<lambda>t :: heap_t. \<forall>a. map_option length (t a) = map_option length (heap s a)"
    have "\<exists>h'. for_loop 0 n (gradient_step (Some ob) (Some tp) (Some g)) ?h3 = Inr h' \<and> ?P h'"
    proof (rule for_loop_total [of ?P])
      show "?P ?h3" using shape3 by blast
    next
      fix j t assume j: "j < n" and p: "?P t"
      from p tgt(1) have "map_option length (t tp) = Some (length tv)" by simp
      from load_total [of t tp, OF this] j tgt(2) obtain x where x: "load t (Some tp) j = Inr x"
        by fastforce
      from p ob(2) have "map_option length (t ob) = Some (length obv)" by simp
      from load_total [of t ob, OF this] j ob(3) obtain y where y: "load t (Some ob) j = Inr y"
        by fastforce
      from p gv(1) have "map_option length (t g) = Some (length gv)" by simp
      from store_total [of t g, OF this, of j "x - y"] j gv(2)
      obtain t' where t': "store t (Some g) j (x - y) = Inr t'"
        by fastforce
      from store_writes_only [OF t'] p have "?P t'" by (simp add: writes_only_def)
      with x y t' show "\<exists>t'. gradient_step (Some ob) (Some tp) (Some g) j t = Inr t' \<and> ?P t'"
        by (simp add: gradient_step_def)
    qed
    then show ?thesis
      by (auto simp: agi_backward_pass_def Some n_def)
  qed
  then obtain rc s2 where bwd':
    "agi_backward_pass (Some net) (Some ob) (Some tp) (gradient_buffer net) b' ?s1 = Inr (rc, s2)"
    by blast
  have "agi_train_batch (Some net) (Some inp) (Some tp) b' s
          = Inr (mean_squared_error tv ov1 (output_size (config net)), s2)"
    using fwd' loss bwd' by (simp add: agi_train_batch_def ob(1) n_def mean_squared_error_def)
  then show ?thesis ..
qed

text \<open>The run of the client on \<open>wide_config\<close>, step by step, and on \<open>empty_config\<close>.\<close>

lemma wide_rand_list:
  "wide_rand =
     [RAND_MAX, RAND_MAX, RAND_MAX, RAND_MAX, RAND_MAX, RAND_MAX, RAND_MAX, RAND_MAX,
      RAND_MAX, RAND_MAX, RAND_MAX, RAND_MAX, RAND_MAX, RAND_MAX, RAND_MAX, RAND_MAX,
      RAND_MAX, RAND_MAX, RAND_MAX, RAND_MAX, RAND_MAX, RAND_MAX, RAND_MAX, RAND_MAX,
      RAND_MAX, RAND_MAX, RAND_MAX, RAND_MAX, RAND_MAX, RAND_MAX, RAND_MAX, RAND_MAX]"
  by (simp add: wide_rand_def eval_nat_numeral)

lemma replicate_4: "replicate 4 x = [x, x, x, x]"
  by (simp add: eval_nat_numeral)

lemma replicate_16: "replicate 16 x = [x, x, x, x, x, x, x, x, x, x, x, x, x, x, x, x]"
  by (simp add: eval_nat_numeral)

lemma half_weight:
  "(Fin (real RAND_MAX) / Fin (real RAND_MAX) - Fin (1 / 2)) * Fin 2 * xavier_scale 4 4
     = Fin (1 / 2)"
  by (simp add: xavier_scale_def double_arith RAND_MAX_def sqrt_quarter)

lemma overflow_steps:
  "Fin 0 + Fin (1 / 2) * Fin DBL_MAX = Fin (DBL_MAX / 2)"
  "Fin (DBL_MAX / 2) + Fin (1 / 2) * Fin DBL_MAX = Fin DBL_MAX"
  "Fin DBL_MAX + Fin (1 / 2) * Fin DBL_MAX = PInf"
  "PInf + Fin (1 / 2) * Fin DBL_MAX = PInf"
  "Fin 0 + Fin (1 / 2) * PInf = PInf"
  "PInf + Fin (1 / 2) * PInf = PInf"
  "PInf + Fin 0 = PInf"
  "Fin 0 < PInf"
  "PInf - PInf = NaN"
  "NaN * NaN = NaN"
  "Fin 0 + NaN = NaN"
  "NaN + NaN = NaN"
  by (simp_all add: plus_double_def times_double_def minus_double_def less_double_def fl_def
      DBL_MAX_def DBL_OVERFLOW_def DBL_UNDERFLOW_def)

lemma wide_create:
  "agi_create_neural_network (Some wide_config) (initial_state [] wide_rand)
     = Inr (Some wide_net, wide_built)"
  by (simp add: wide_config_def wide_rand_list initial_state_def wide_net_def wide_built_def
      wide_heap_def half_row_def zero_stats_def libc_defs agi_create_neural_network_def
      layer_output_choice_def read_hidden_def init_weight_def free_layer_def store_def load_def
      create_layers.simps for_loop.simps Let_def half_weight replicate_4 replicate_16 fun_eq_iff)

lemma wide_allocs:
  "new_block True wide_input wide_built
     = (Some 8, wide_built\<lparr>heap := (wide_heap [0, 0, 0, 0] [0, 0, 0, 0] [0, 0, 0, 0])
          (8 \<mapsto> wide_input), next_addr := 9\<rparr>)"
  "libc_calloc 4 (wide_built\<lparr>heap := (wide_heap [0, 0, 0, 0] [0, 0, 0, 0] [0, 0, 0, 0])
          (8 \<mapsto> wide_input), next_addr := 9\<rparr>)
     = (Some 9, wide_ready)"
  by (simp_all add: wide_built_def wide_ready_def libc_defs replicate_4)

lemma wide_forward:
  "agi_forward_pass (Some wide_net) (Some 8) (Some 9) 1 wide_ready
     = Inr (AGI_SUCCESS, wide_after_forward)"
  by (simp add: wide_ready_def wide_after_forward_def wide_built_def wide_heap_def wide_net_def
      wide_input_def half_row_def wide_config_def forward_defs load_def store_def
      sizeof_double_def for_loop.simps Let_def fun_eq_iff zero_double_def overflow_steps)

lemma wide_train:
  "agi_train_batch (Some wide_net) (Some 8) (Some 9) 1 wide_after_forward
     = Inr (NaN, wide_after_train)"
  by (simp add: wide_after_forward_def wide_after_train_def wide_built_def wide_heap_def
      wide_net_def wide_input_def half_row_def wide_config_def forward_defs load_def store_def
      sizeof_double_def for_loop.simps Let_def agi_train_batch_def agi_backward_pass_def
      loss_step_def gradient_step_def fun_eq_iff zero_double_def overflow_steps
      divide_double_def of_size_def)

lemma wide_run:
  "train_on_own_output wide_config wide_rand wide_input = Inr ([PInf, PInf, PInf, PInf], NaN)"
proof -
  have out: "read_block (heap wide_after_forward) (Some 9) = Inr [PInf, PInf, PInf, PInf]"
    by (simp add: read_block_def wide_after_forward_def)
  have w: "output_size wide_config = 4"
    by (simp add: wide_config_def)
  show ?thesis
    by (simp add: train_on_own_output_def wide_create wide_allocs w wide_forward out wide_train)
qed

lemma empty_run: "train_on_own_output empty_config [] [Fin 1] = Inr ([], NaN)"
  by (simp add: train_on_own_output_def read_block_def empty_config_def initial_state_def
      zero_stats_def libc_defs create_defs create_layers.simps for_loop.simps Let_def
      forward_defs agi_train_batch_def agi_backward_pass_def loss_step_def gradient_step_def
      double_arith)

text \<open>
  C9 as stated fails. \<open>wide_config\<close> with \<open>rand()\<close> returning \<open>RAND_MAX\<close> is built
  into two layers of shape \<open>4 \<rightarrow> 4\<close> whose weights are all \<open>0.5\<close>. On the finite input
  \<open>[DBL_MAX, DBL_MAX, DBL_MAX, DBL_MAX]\<close> the accumulation of the first layer overflows,
  the forward pass succeeds and leaves \<open>+inf\<close> in every element of the output, and
  \<open>agi_train_batch\<close> on that input with that output as the target returns NaN
  (\<open>inf - inf\<close>), not \<open>0.0\<close>. The network built from \<open>empty_config\<close> has the output
  width 0: the forward output and the target are empty, and \<open>agi_train_batch\<close> returns
  NaN (\<open>0.0 / 0\<close>), not \<open>0.0\<close>.
\<close>

theorem C9_loss_is_nan:
  "train_on_own_output wide_config wide_rand [Fin DBL_MAX, Fin DBL_MAX, Fin DBL_MAX, Fin DBL_MAX]
     = Inr ([PInf, PInf, PInf, PInf], NaN)
   \<and> list_all is_finite [Fin DBL_MAX, Fin DBL_MAX, Fin DBL_MAX, Fin DBL_MAX]
   \<and> train_on_own_output empty_config [] [Fin 1] = Inr ([], NaN)
   \<and> list_all is_finite [Fin 1]
   \<and> NaN \<noteq> (0::double)"
  using wide_run empty_run by (simp add: wide_input_def zero_double_def)

text \<open>
  C9 (amended). Let the forward pass on a network and an input succeed and leave the
  values \<open>ov1\<close> in the caller's output buffer. Let the target be a buffer other than the
  network's input and output scratch buffers that holds at least \<open>output_size\<close>
  doubles, let the output scratch buffer (and the gradient scratch buffer, unless it is
  null) hold at least \<open>output_size\<close> doubles, and let \<open>output_size\<close> be below
  \<open>2^61\<close> (its byte count fits \<open>size_t\<close>). Then \<open>agi_train_batch\<close> on the same
  network and input returns the mean squared error of \<open>ov1\<close> against the target. When
  the output width is positive, every one of the \<open>output_size\<close> values of \<open>ov1\<close> is
  finite and the target holds these values, this loss is \<open>0.0\<close>.
\<close>

theorem C9_train_on_finite_forward_output:
  fixes net :: agi_neural_network_t
  defines "n \<equiv> unat (output_size (config net))"
  assumes fwd: "agi_forward_pass (Some net) (Some inp) (Some outp) b s = Inr (AGI_SUCCESS, s1)"
    and out1: "heap s1 outp = Some ov1"
    and tgt: "heap s tp = Some tv" "n \<le> length tv"
    and sep: "Some tp \<noteq> input_buffer net" "Some tp \<noteq> output_buffer net"
    and ob: "output_buffer net = Some ob" "heap s ob = Some obv" "n \<le> length obv"
    and gb: "gradient_buffer net = None \<or>
             (\<exists>g gv. gradient_buffer net = Some g \<and> heap s g = Some gv \<and> n \<le> length gv)"
    and width: "n < 2 ^ 61"
  shows "(\<exists>s2. agi_train_batch (Some net) (Some inp) (Some tp) b' s
                 = Inr (mean_squared_error tv ov1 (output_size (config net)), s2))
       \<and> (0 < n \<and> list_all is_finite (take n ov1) \<and> take n tv = take n ov1 \<longrightarrow>
            mean_squared_error tv ov1 (output_size (config net)) = 0)"
proof -
  have run: "\<exists>s2. agi_train_batch (Some net) (Some inp) (Some tp) b' s
                    = Inr (mean_squared_error tv ov1 (output_size (config net)), s2)"
    by (rule train_batch_mse [OF fwd out1 tgt(1) tgt(2) [unfolded n_def] sep ob(1,2)
          ob(3) [unfolded n_def] gb [unfolded n_def] width [unfolded n_def]])
  have zero: "mean_squared_error tv ov1 (output_size (config net)) = 0"
    if pos: "0 < n" and fin: "list_all is_finite (take n ov1)" and eq: "take n tv = take n ov1"
  proof -
    have same: "tv ! j = ov1 ! j \<and> is_finite (ov1 ! j)" if "j < n" for j
    proof -
      have "tv ! j = take n tv ! j" using that by simp
      also have "\<dots> = take n ov1 ! j" by (simp only: eq)
      also have "\<dots> = ov1 ! j" using that by simp
      finally have e: "tv ! j = ov1 ! j" .
      have "length (take n ov1) = length (take n tv)" by (simp only: eq)
      with tgt(2) have "j < length (take n ov1)" using that by simp
      with fin have "is_finite (take n ov1 ! j)" by (simp add: list_all_length)
      with that e show ?thesis by simp
    qed
    have "squared_error_sum tv ov1 n = 0"
      by (rule squared_error_sum_zero) (rule same)
    with pos show ?thesis
      by (simp add: mean_squared_error_def n_def zero_over_width)
  qed
  from run zero show ?thesis by blast
qed

theorem C9_train_on_finite_forward_output_witness:
  "agi_forward_pass (Some demo_net) (Some 10) (Some 11) 1 demo_ready = Inr (AGI_SUCCESS, demo_after_forward)
   \<and> agi_forward_pass (Some demo_net) (Some 10) (Some 11) 32 demo_after_forward
       = Inr (AGI_SUCCESS, demo_after_forward)
   \<and> heap demo_after_forward 11 = Some [Fin 5]
   \<and> (\<exists>s2. agi_train_batch (Some demo_net) (Some 10) (Some 11) 32 demo_after_forward
              = Inr (mean_squared_error [Fin 5] [Fin 5] 1, s2))
   \<and> mean_squared_error [Fin 5] [Fin 5] 1 = 0"
proof -
  have h: "heap demo_after_forward 11 = Some [Fin 5]" "heap demo_after_forward 8 = Some [Fin 5]"
    "heap demo_after_forward 9 = Some [0]"
    by (simp_all add: demo_after_forward_def demo_heap_def)
  have n: "input_buffer demo_net = Some 7" "output_buffer demo_net = Some 8"
    "gradient_buffer demo_net = Some 9" "unat (output_size (config demo_net)) = 1"
    "output_size (config demo_net) = 1"
    by (simp_all add: demo_net_def demo_config_def)
  have main: "(\<exists>s2. agi_train_batch (Some demo_net) (Some 10) (Some 11) 32 demo_after_forward
               = Inr (mean_squared_error [Fin 5] [Fin 5] (output_size (config demo_net)), s2))
             \<and> (0 < unat (output_size (config demo_net))
                  \<and> list_all is_finite (take (unat (output_size (config demo_net))) [Fin 5])
                  \<and> take (unat (output_size (config demo_net))) [Fin 5]
                      = take (unat (output_size (config demo_net))) [Fin 5] \<longrightarrow>
                mean_squared_error [Fin 5] [Fin 5] (output_size (config demo_net)) = 0)"
    by (rule C9_train_on_finite_forward_output [OF demo_forward_again h(1) h(1),
          where ob = 8 and obv = "[Fin 5]"])
      (simp_all add: n h)
  have pre: "0 < unat (output_size (config demo_net))
      \<and> list_all is_finite (take (unat (output_size (config demo_net))) [Fin 5])
      \<and> take (unat (output_size (config demo_net))) [Fin 5]
          = take (unat (output_size (config demo_net))) [Fin 5]"
    by (simp add: n)
  from main pre have "(\<exists>s2. agi_train_batch (Some demo_net) (Some 10) (Some 11) 32 demo_after_forward
               = Inr (mean_squared_error [Fin 5] [Fin 5] (output_size (config demo_net)), s2))
             \<and> mean_squared_error [Fin 5] [Fin 5] (output_size (config demo_net)) = 0"
    by blast
  from this [unfolded n(5)] demo_forward demo_forward_again h(1) show ?thesis
    by blast
qed

subsection \<open>The batch size\<close>

text \<open>
  C10. \<open>agi_forward_pass\<close>, \<open>agi_backward_pass\<close> and \<open>agi_train_batch\<close> ignore
  \<open>batch_size\<close>: for the same network, buffers and state, two values of \<open>batch_size\<close>
  give the same outcome, that is the same return value and the same final state (heap
  contents included), or the same fault.
\<close>

theorem C10_batch_size_ignored:
  "agi_forward_pass network input output b1 s = agi_forward_pass network input output b2 s
   \<and> agi_backward_pass network input target gradients b1 s
       = agi_backward_pass network input target gradients b2 s
   \<and> agi_train_batch network input target b1 s = agi_train_batch network input target b2 s"
  unfolding agi_train_batch_def agi_forward_pass_def agi_backward_pass_def
  by (intro conjI refl)

theorem C10_batch_size_ignored_witness:
  "agi_forward_pass (Some demo_net) (Some 10) (Some 11) 1 demo_ready
     = agi_forward_pass (Some demo_net) (Some 10) (Some 11) 32 demo_ready
   \<and> agi_forward_pass (Some demo_net) (Some 10) (Some 11) 32 demo_ready
     = Inr (AGI_SUCCESS, demo_after_forward)
   \<and> agi_backward_pass (Some demo_net) (Some 8) (Some 11) (Some 9) 1 demo_after_forward
     = agi_backward_pass (Some demo_net) (Some 8) (Some 11) (Some 9) 32 demo_after_forward
   \<and> agi_train_batch (Some demo_net) (Some 10) (Some 11) 1 demo_after_forward
     = agi_train_batch (Some demo_net) (Some 10) (Some 11) 32 demo_after_forward"
  using C10_batch_size_ignored [of "Some demo_net" "Some 10" "Some 11" 1 demo_ready 32]
    C10_batch_size_ignored [of "Some demo_net" "Some 8" "Some 11" 1 demo_after_forward 32
      "Some 11" "Some 9"]
    C10_batch_size_ignored [of "Some demo_net" "Some 10" "Some 11" 1 demo_after_forward 32
      "Some 11" "Some 9"]
    demo_forward
  by simp

end
